theory Spec2Isabelle
  imports Complex_Main
begin

section \<open>Cubic B-spline basis (CausalKinetiX/BSbasis.py)\<close>

text \<open>
  The module works on numpy arrays.  A one-dimensional array of floats is a
  \<open>real list\<close>, a two-dimensional one is a list of rows; floats are the reals, so
  rounding is not part of the model.  Arrays of an integer dtype are \<open>int list\<close>, with
  the wrap-around of int64 written out; they matter in \<open>__call__\<close>, where
  \<open>eval_PP_int64\<close> models them.  The assertions \<open>type(x) == np.ndarray\<close> of the
  source hold by the typing of the model; \<open>PP_Cubic_init_arg\<close> and \<open>get_BSbasis_arg\<close>
  below model them on arguments of other types.  Every raise of the source is a value of
  \<open>error\<close>.
\<close>

datatype error = AssertionError | IndexError | ValueError | Exception

text \<open>Run a list of computations in order and stop at the first one that raises.\<close>

fun collect :: "(error + 'a) list \<Rightarrow> error + 'a list" where
  "collect [] = Inr []"
| "collect (x # xs) =
     (case x of
        Inl e \<Rightarrow> Inl e
      | Inr v \<Rightarrow> (case collect xs of Inl e \<Rightarrow> Inl e | Inr vs \<Rightarrow> Inr (v # vs)))"

subsection \<open>class PP\_Cubic\<close>

record PP_Cubic =
  idx :: int
  knots :: "real list"
  coefs :: "real list list"

text \<open>\<open>coefs.shape == (4, 4)\<close>\<close>

definition shape_4x4 :: "real list list \<Rightarrow> bool" where
  "shape_4x4 cs = (length cs = 4 \<and> list_all (\<lambda>r. length r = 4) cs)"

text \<open>\<open>(knots[:-1] > knots[1:]).sum()\<close>: the number of descents of the knot vector.\<close>

definition descents :: "real list \<Rightarrow> nat" where
  "descents ks = length (filter (\<lambda>(a, b). a > b) (zip (butlast ks) (tl ks)))"

text \<open>
  \<open>PP_Cubic.__init__\<close> as the module itself calls it, with a numpy array for the knots:
  the assertions in the order of the source, then the fields are stored.  The second
  assertion of the source, \<open>type(knots) == np.ndarray\<close>, holds here by the type of
  \<open>ks\<close>; \<open>PP_Cubic_init_arg\<close> below has it.
\<close>

definition PP_Cubic_init :: "int \<Rightarrow> real list \<Rightarrow> real list list \<Rightarrow> error + PP_Cubic" where
  "PP_Cubic_init i ks cs =
     (if length ks \<noteq> 5 then Inl AssertionError
      else if \<not> shape_4x4 cs then Inl AssertionError
      else if descents ks \<noteq> 0 then Inl AssertionError
      else Inr \<lparr>idx = i, knots = ks, coefs = cs\<rparr>)"

text \<open>
  The knots as a caller may pass them: a Python list or a one-dimensional numpy array of
  numbers.  \<open>len\<close> counts the entries of both; the second assertion looks at the type.
\<close>

datatype knots_argument = KnotsList "real list" | KnotsNdarray "real list"

definition knots_values :: "knots_argument \<Rightarrow> real list" where
  "knots_values k = (case k of KnotsList xs \<Rightarrow> xs | KnotsNdarray xs \<Rightarrow> xs)"

definition is_knots_ndarray :: "knots_argument \<Rightarrow> bool" where
  "is_knots_ndarray k = (case k of KnotsList xs \<Rightarrow> False | KnotsNdarray xs \<Rightarrow> True)"

text \<open>\<open>PP_Cubic.__init__\<close> with its four assertions, in the order of the source.\<close>

definition PP_Cubic_init_arg ::
    "int \<Rightarrow> knots_argument \<Rightarrow> real list list \<Rightarrow> error + PP_Cubic" where
  "PP_Cubic_init_arg i k cs =
     (if length (knots_values k) \<noteq> 5 then Inl AssertionError
      else if \<not> is_knots_ndarray k then Inl AssertionError
      else if \<not> shape_4x4 cs then Inl AssertionError
      else if descents (knots_values k) \<noteq> 0 then Inl AssertionError
      else Inr \<lparr>idx = i, knots = knots_values k, coefs = cs\<rparr>)"

text \<open>
  The class invariant: what the constructor has checked of every instance.  The module
  never assigns to a field afterwards, so every index the methods below read is in range.
\<close>

definition valid :: "PP_Cubic \<Rightarrow> bool" where
  "valid p = (length (knots p) = 5 \<and> shape_4x4 (coefs p) \<and> descents (knots p) = 0)"

subsection \<open>numpy's poly1d\<close>

text \<open>\<open>np.poly1d(c).coefficients\<close>: leading zeros are trimmed, the zero polynomial is \<open>[0]\<close>.\<close>

definition poly1d :: "real list \<Rightarrow> real list" where
  "poly1d c = (let t = dropWhile (\<lambda>x. x = 0) c in if t = [] then [0] else t)"

text \<open>\<open>np.arange(n, 0, -1)\<close>\<close>

definition arange_down :: "nat \<Rightarrow> real list" where
  "arange_down n = map real (rev [1..<Suc n])"

text \<open>\<open>np.polyder(p)\<close>: \<open>p[:-1] * arange(len(p) - 1, 0, -1)\<close>\<close>

definition polyder :: "real list \<Rightarrow> real list" where
  "polyder p = map2 (*) (butlast p) (arange_down (length p - 1))"

text \<open>\<open>np.polyint(p)\<close> with integration constant 0: \<open>p / arange(len(p), 0, -1)\<close>, then 0.\<close>

definition polyint :: "real list \<Rightarrow> real list" where
  "polyint p = map2 (/) p (arange_down (length p)) @ [0]"

text \<open>\<open>np.polyval\<close>: Horner's rule, highest power first.\<close>

definition polyval :: "real list \<Rightarrow> real \<Rightarrow> real" where
  "polyval p x = foldl (\<lambda>y c. y * x + c) 0 p"

text \<open>\<open>np.poly1d(row).deriv().coefficients\<close>\<close>

definition deriv_coefficients :: "real list \<Rightarrow> real list" where
  "deriv_coefficients row = poly1d (polyder (poly1d row))"

text \<open>\<open>np.poly1d(row).integ()(x)\<close>\<close>

definition integ_at :: "real list \<Rightarrow> real \<Rightarrow> real" where
  "integ_at row x = polyval (poly1d (polyint (poly1d row))) x"

subsection \<open>PP\_Cubic.differentiate\<close>

text \<open>
  \<open>out_coefs\<close> starts as zeros; row \<open>i\<close> receives the derivative's coefficients in its
  last \<open>len(tmp_coef)\<close> columns.  The result goes through the constructor.
\<close>

definition out_row :: "real list \<Rightarrow> real list" where
  "out_row row = (let tmp_coef = deriv_coefficients row
                  in take (4 - length tmp_coef) (replicate 4 0) @ tmp_coef)"

definition differentiate :: "PP_Cubic \<Rightarrow> error + PP_Cubic" where
  "differentiate p =
     PP_Cubic_init (idx p) (knots p) (map (\<lambda>i. out_row (coefs p ! i)) [0..<4])"

text \<open>Sequencing two calls: \<open>p.differentiate().differentiate()\<close>.\<close>

definition differentiate2 :: "PP_Cubic \<Rightarrow> error + PP_Cubic" where
  "differentiate2 p = (case differentiate p of Inl e \<Rightarrow> Inl e | Inr q \<Rightarrow> differentiate q)"

subsection \<open>PP\_Cubic.\_\_call\_\_\<close>

text \<open>
  \<open>sum(self.coefs[r, k]*(x-self.knots[r])**(3-k) for k in range(4))\<close>, where the knots
  or the points are floats: the difference is a float.
\<close>

definition row_value :: "PP_Cubic \<Rightarrow> nat \<Rightarrow> real \<Rightarrow> real" where
  "row_value p r x = sum_list (map (\<lambda>k. coefs p ! r ! k * (x - knots p ! r) ^ (3 - k)) [0..<4])"

definition eval_PP :: "PP_Cubic \<Rightarrow> real \<Rightarrow> real" where
  "eval_PP p x =
     (if \<not> (knots p ! 0 \<le> x \<and> x \<le> knots p ! 4) then 0
      else if knots p ! 0 \<le> x \<and> x \<le> knots p ! 1 then row_value p 0 x
      else if knots p ! 1 \<le> x \<and> x \<le> knots p ! 2 then row_value p 1 x
      else row_value p (min 3 (length (filter (\<lambda>k. k \<le> x) (knots p)) - 1)) x)"

definition PP_Cubic_call :: "PP_Cubic \<Rightarrow> real list \<Rightarrow> real list" where
  "PP_Cubic_call p vec = map (eval_PP p) vec"

text \<open>
  The same method where both the knots and the points have an integer dtype, as in
  \<open>get_BSbasis(np.array([0, 1, 2]))[0](np.array([0, 1]))\<close>.  \<open>np.vectorize\<close> hands
  each point over as a Python integer; \<open>x - self.knots[r]\<close> is then a numpy int64 and so
  is its power, both wrapping around at \<open>2^63\<close>; the product with the float coefficient
  is a float.  The comparisons are exact.
\<close>

definition int64 :: "int \<Rightarrow> int" where
  "int64 n = (n + 2 ^ 63) mod 2 ^ 64 - 2 ^ 63"

definition row_value_int64 :: "int list \<Rightarrow> real list list \<Rightarrow> nat \<Rightarrow> int \<Rightarrow> real" where
  "row_value_int64 ks cs r x =
     sum_list (map (\<lambda>k. cs ! r ! k * real_of_int (int64 (int64 (x - ks ! r) ^ (3 - k))))
                   [0..<4])"

definition eval_PP_int64 :: "int list \<Rightarrow> real list list \<Rightarrow> int \<Rightarrow> real" where
  "eval_PP_int64 ks cs x =
     (if \<not> (ks ! 0 \<le> x \<and> x \<le> ks ! 4) then 0
      else if ks ! 0 \<le> x \<and> x \<le> ks ! 1 then row_value_int64 ks cs 0 x
      else if ks ! 1 \<le> x \<and> x \<le> ks ! 2 then row_value_int64 ks cs 1 x
      else row_value_int64 ks cs (min 3 (length (filter (\<lambda>k. k \<le> x) ks) - 1)) x)"

definition PP_Cubic_call_int64 :: "int list \<Rightarrow> real list list \<Rightarrow> int list \<Rightarrow> real list" where
  "PP_Cubic_call_int64 ks cs vec = map (eval_PP_int64 ks cs) vec"

subsection \<open>PP\_Cubic.\_\_mod\_\_\<close>

text \<open>
  Python slice bounds: a negative bound counts from the end, and every bound is clamped
  to the length.  \<open>xs[k:]\<close> is \<open>slice_from k xs\<close> and \<open>xs[:k]\<close> is \<open>slice_to k xs\<close>.
\<close>

definition slice_bound :: "int \<Rightarrow> nat \<Rightarrow> nat" where
  "slice_bound k n = (if k < 0 then nat (int n + k) else min (nat k) n)"

definition slice_from :: "int \<Rightarrow> 'a list \<Rightarrow> 'a list" where
  "slice_from k xs = drop (slice_bound k (length xs)) xs"

definition slice_to :: "int \<Rightarrow> 'a list \<Rightarrow> 'a list" where
  "slice_to k xs = take (slice_bound k (length xs)) xs"

text \<open>\<open>A[:, 2:]\<close>: the last columns of every row.\<close>

definition cols_from :: "nat \<Rightarrow> real list list \<Rightarrow> real list list" where
  "cols_from c A = map (drop c) A"

text \<open>
  \<open>np.convolve(a, b)\<close> in its default mode: entry \<open>n\<close> is the sum of the products
  \<open>a[m] * b[n - m]\<close>; an empty argument raises ValueError.
\<close>

definition np_convolve :: "real list \<Rightarrow> real list \<Rightarrow> error + real list" where
  "np_convolve a b =
     (if a = [] \<or> b = [] then Inl ValueError
      else Inr (map (\<lambda>n. sum_list (map (\<lambda>m. if m \<le> n \<and> n - m < length b
                                                then a ! m * b ! (n - m) else 0)
                                         [0..<length a]))
                    [0..<length a + length b - 1]))"

text \<open>The local helper \<open>conv\<close>: rows are convolved pairwise, \<open>zip\<close> stops at the shorter table.\<close>

definition conv :: "real list list \<Rightarrow> real list list \<Rightarrow> error + real list list" where
  "conv A B = collect (map (\<lambda>(a, b). np_convolve a b) (zip A B))"

text \<open>
  \<open>prod_coefs = np.zeros([4, 4]); prod_coefs[lo:hi, 1:] = V\<close>.  The rows \<open>lo..hi-1\<close>
  keep their column 0 and take a row of \<open>V\<close> in columns 1 to 3.  numpy raises ValueError
  when \<open>V\<close> cannot be stored in the block; here that is every \<open>V\<close> that has not the shape
  of the block (a \<open>V\<close> that numpy would broadcast does not arise: both operands of
  \<open>conv\<close> are cut to the number of rows of the block).
\<close>

definition assign_block :: "nat \<Rightarrow> nat \<Rightarrow> real list list \<Rightarrow> error + real list list" where
  "assign_block lo hi V =
     (let zeros = replicate 4 (replicate 4 (0::real)) in
      if length V = hi - lo \<and> list_all (\<lambda>v. length v = 3) V
      then Inr (take lo zeros @ map2 (\<lambda>z v. hd z # v) (take (hi - lo) (drop lo zeros)) V
                @ drop hi zeros)
      else Inl ValueError)"

text \<open>The three branches on the sign of \<open>PP1.idx - PP2.idx\<close>, and the unreachable raise.\<close>

definition prod_coefs :: "PP_Cubic \<Rightarrow> PP_Cubic \<Rightarrow> error + real list list" where
  "prod_coefs PP1 PP2 =
     (if idx PP1 < idx PP2 then
        (case conv (cols_from 2 (slice_from (idx PP2 - idx PP1) (coefs PP1)))
                   (cols_from 2 (slice_to (idx PP1 - idx PP2) (coefs PP2))) of
           Inl e \<Rightarrow> Inl e
         | Inr V \<Rightarrow> assign_block (slice_bound (idx PP2 - idx PP1) 4) 4 V)
      else if idx PP1 = idx PP2 then
        (case conv (cols_from 2 (coefs PP1)) (cols_from 2 (coefs PP2)) of
           Inl e \<Rightarrow> Inl e
         | Inr V \<Rightarrow> assign_block 0 4 V)
      else if idx PP1 > idx PP2 then
        (case conv (cols_from 2 (slice_to (idx PP2 - idx PP1) (coefs PP1)))
                   (cols_from 2 (slice_from (idx PP1 - idx PP2) (coefs PP2))) of
           Inl e \<Rightarrow> Inl e
         | Inr V \<Rightarrow> assign_block 0 (slice_bound (idx PP2 - idx PP1) 4) V)
      else Inl Exception)"

text \<open>
  The closing loop: for each row, subtract the antiderivative at 0 and add it at the
  length of the interval of \<open>PP1\<close>.
\<close>

definition total_loop :: "real list list \<Rightarrow> real list \<Rightarrow> real" where
  "total_loop pc ks =
     foldl (\<lambda>total i. total - integ_at (pc ! i) 0 + integ_at (pc ! i) (ks ! (i + 1) - ks ! i))
           0 [0..<4]"

definition PP_Cubic_mod :: "PP_Cubic \<Rightarrow> PP_Cubic \<Rightarrow> error + real" where
  "PP_Cubic_mod PP1 PP2 =
     (if \<bar>idx PP1 - idx PP2\<bar> > 3 then Inr 0
      else case differentiate2 PP1 of
        Inl e \<Rightarrow> Inl e
      | Inr D1 \<Rightarrow>
          (case differentiate2 PP2 of
             Inl e \<Rightarrow> Inl e
           | Inr D2 \<Rightarrow>
               (case prod_coefs D1 D2 of
                  Inl e \<Rightarrow> Inl e
                | Inr pc \<Rightarrow> Inr (total_loop pc (knots D1)))))"

subsection \<open>get\_BSbasis\<close>

text \<open>
  The coefficient table of a window comes from scipy
  (\<open>PPoly.from_spline(BSpline.basis_element(w)).c.T\<close>), which is not part of the module.
  It is the parameter \<open>cT\<close>: the table scipy returns for a window, or the error it
  raises.  The module keeps the rows 3 to 6 of it.
\<close>

text \<open>\<open>np.concatenate([[data[0]]*3, data, [data[-1]]*3])\<close>, for a non-empty \<open>data\<close>.\<close>

definition data_padded :: "real list \<Rightarrow> real list" where
  "data_padded data = replicate 3 (data ! 0) @ data @ replicate 3 (data ! (length data - 1))"

text \<open>\<open>data_padded[i:i+5]\<close>\<close>

definition window :: "real list \<Rightarrow> nat \<Rightarrow> real list" where
  "window padded i = take 5 (drop i padded)"

text \<open>\<open>data[0]\<close> raises IndexError on an empty array.\<close>

definition get_BSbasis ::
    "(real list \<Rightarrow> error + real list list) \<Rightarrow> real list \<Rightarrow> error + PP_Cubic list" where
  "get_BSbasis cT data =
     (if data = [] then Inl IndexError
      else collect (map (\<lambda>i. case cT (window (data_padded data) i) of
                                Inl e \<Rightarrow> Inl e
                              | Inr c \<Rightarrow> PP_Cubic_init (int i) (window (data_padded data) i)
                                                        (take 4 (drop 3 c)))
                        [0..<nat (int (length data) - 2 + 4)]))"

text \<open>
  The argument of \<open>get_BSbasis\<close> as Python passes it, for the first two statements of
  the function: a value that is no numpy array (a list, say), an array of dimension 0, or
  an array of dimension 1.  \<open>assert(type(data) == np.ndarray)\<close> looks at the type only,
  and \<open>data[0]\<close> raises IndexError on an array of dimension 0.  What happens to an array
  of two or more dimensions that has rows is decided inside scipy and is not modelled.
\<close>

datatype argument = PyList "real list" | Ndarray0 real | Ndarray1 "real list"

definition is_ndarray :: "argument \<Rightarrow> bool" where
  "is_ndarray a = (case a of PyList xs \<Rightarrow> False | Ndarray0 x \<Rightarrow> True | Ndarray1 xs \<Rightarrow> True)"

definition get_BSbasis_arg ::
    "(real list \<Rightarrow> error + real list list) \<Rightarrow> argument \<Rightarrow> error + PP_Cubic list" where
  "get_BSbasis_arg cT a =
     (if \<not> is_ndarray a then Inl AssertionError
      else case a of
             Ndarray1 data \<Rightarrow> get_BSbasis cT data
           | _ \<Rightarrow> Inl IndexError)"

subsection \<open>The matrix builders\<close>

text \<open>
  A numeric array with its shape.  \<open>np.array\<close> of a list of equally long rows has the
  shape (rows, columns), and of the empty list the shape (0,); \<open>.T\<close> reverses the shape
  and transposes a two-dimensional array.
\<close>

record ndarray =
  shape :: "nat list"
  entries :: "real list list"

definition np_array :: "real list list \<Rightarrow> ndarray" where
  "np_array rows =
     \<lparr>shape = (if rows = [] then [0] else [length rows, length (hd rows)]), entries = rows\<rparr>"

definition T :: "ndarray \<Rightarrow> ndarray" where
  "T a =
     (if length (shape a) = 2
      then \<lparr>shape = rev (shape a),
            entries = map (\<lambda>j. map (\<lambda>r. r ! j) (entries a)) [0..<shape a ! 1]\<rparr>
      else a)"

definition get_basis_matrix :: "real list \<Rightarrow> PP_Cubic list \<Rightarrow> ndarray" where
  "get_basis_matrix data BSbasis = T (np_array (map (\<lambda>basis. PP_Cubic_call basis data) BSbasis))"

definition get_deriv_matrix :: "real list \<Rightarrow> PP_Cubic list \<Rightarrow> error + ndarray" where
  "get_deriv_matrix data BSbasis =
     (case collect (map differentiate BSbasis) of
        Inl e \<Rightarrow> Inl e
      | Inr BSderiv \<Rightarrow> Inr (T (np_array (map (\<lambda>deriv. PP_Cubic_call deriv data) BSderiv))))"

text \<open>
  The column of basis functions is broadcast against its transpose: entry \<open>(i, j)\<close> is
  \<open>BSbasis[i] % BSbasis[j]\<close>.
\<close>

definition get_penalty_matrix :: "PP_Cubic list \<Rightarrow> error + ndarray" where
  "get_penalty_matrix BSbasis =
     (case collect (map (\<lambda>bi. collect (map (\<lambda>bj. PP_Cubic_mod bi bj) BSbasis)) BSbasis) of
        Inl e \<Rightarrow> Inl e
      | Inr rows \<Rightarrow> Inr \<lparr>shape = [length BSbasis, length BSbasis], entries = rows\<rparr>)"

subsection \<open>Example data\<close>

text \<open>
  The cubic B-spline on the knots 0, 1, 2, 3, 4, written piece by piece in the local
  variable: \<open>t^3/6\<close>, \<open>(-3t^3 + 3t^2 + 3t + 1)/6\<close>, \<open>(3t^3 - 6t^2 + 4)/6\<close> and
  \<open>(1 - t)^3/6\<close>.  It serves as the concrete input of the examples below.
\<close>

definition unit_table :: "real list list" where
  "unit_table = [[1/6, 0, 0, 0], [-1/2, 1/2, 1/2, 1/6], [1/2, -1, 0, 2/3], [-1/6, 1/2, -1/2, 1/6]]"

definition unit_PP :: PP_Cubic where
  "unit_PP = \<lparr>idx = 3, knots = [0, 1, 2, 3, 4], coefs = unit_table\<rparr>"

text \<open>
  A stand-in for scipy in the examples: a table of 10 rows and 4 columns for every window,
  with \<open>unit_table\<close> in the rows 3 to 6.  These rows are the pieces of the B-spline for a
  window of knots one apart only; the examples need no more than the shape of the table.
\<close>

definition demo_cT :: "real list \<Rightarrow> error + real list list" where
  "demo_cT w = Inr (replicate 3 [0, 0, 0, 0] @ unit_table @ replicate 3 [0, 0, 0, 0])"

subsection \<open>Closed forms\<close>

text \<open>
  The integral over \<open>[0, h]\<close> of the product of the second derivatives of two rows: the
  second derivative of the row \<open>[a, b, c, d]\<close> is \<open>6 a t + 2 b\<close>.
\<close>

definition seg :: "real list \<Rightarrow> real list \<Rightarrow> real \<Rightarrow> real" where
  "seg r s h = (6 * r ! 0) * (6 * s ! 0) * h ^ 3 / 3
               + ((6 * r ! 0) * (2 * s ! 1) + (2 * r ! 1) * (6 * s ! 0)) * h ^ 2 / 2
               + (2 * r ! 1) * (2 * s ! 1) * h"

text \<open>
  The sum of these integrals over the rows of \<open>f\<close> and \<open>g\<close> that lie on the same knot
  interval when \<open>g\<close> starts \<open>idx g - idx f\<close> intervals after \<open>f\<close>; the lengths are those of
  the intervals of \<open>f\<close>.
\<close>

definition overlap :: "PP_Cubic \<Rightarrow> PP_Cubic \<Rightarrow> real" where
  "overlap f g =
     (let d = idx g - idx f in
      if \<bar>d\<bar> > 3 then 0
      else if 0 \<le> d then
        sum_list (map (\<lambda>k. seg (coefs f ! (nat d + k)) (coefs g ! k)
                               (knots f ! (nat d + k + 1) - knots f ! (nat d + k)))
                      [0..<4 - nat d])
      else
        sum_list (map (\<lambda>k. seg (coefs f ! k) (coefs g ! (nat (- d) + k))
                               (knots f ! (k + 1) - knots f ! k))
                      [0..<4 - nat (- d)]))"

section \<open>Properties\<close>

subsection \<open>Lists of known length\<close>

lemma list4: "length xs = 4 \<Longrightarrow> \<exists>a b c d. xs = [a, b, c, d]"
  by (cases xs; simp; (rename_tac x1 xs1, case_tac xs1; simp)?;
      (rename_tac x2 xs2, case_tac xs2; simp)?; (rename_tac x3 xs3, case_tac xs3; simp)?)

lemma shape_4x4_rows: "shape_4x4 cs \<Longrightarrow> r \<in> set cs \<Longrightarrow> length r = 4"
  by (simp add: shape_4x4_def list_all_iff)

subsection \<open>The constructor\<close>

text \<open>The count of descents is zero exactly on the non-decreasing knot vectors.\<close>

lemma descents_sorted: "descents ks = 0 \<longleftrightarrow> sorted ks"
proof (induction ks rule: induct_list012)
  case 1
  show ?case by (simp add: descents_def)
next
  case (2 x)
  show ?case by (simp add: descents_def)
next
  case (3 x y zs)
  have "descents (x # y # zs) = (if x > y then 1 else 0) + descents (y # zs)"
    by (simp add: descents_def)
  moreover have "sorted (x # y # zs) \<longleftrightarrow> x \<le> y \<and> sorted (y # zs)"
    by force
  ultimately show ?case using 3 by auto
qed

text \<open>The constructor as the module itself calls it, on a numpy array of knots.\<close>

lemma PP_Cubic_init_cases:
  "(length ks \<noteq> 5 \<or> \<not> sorted ks \<or> \<not> (length cs = 4 \<and> (\<forall>r\<in>set cs. length r = 4))
      \<longrightarrow> PP_Cubic_init i ks cs = Inl AssertionError)
   \<and> (length ks = 5 \<and> sorted ks \<and> length cs = 4 \<and> (\<forall>r\<in>set cs. length r = 4)
      \<longrightarrow> PP_Cubic_init i ks cs = Inr \<lparr>idx = i, knots = ks, coefs = cs\<rparr>)"
  by (auto simp: PP_Cubic_init_def shape_4x4_def list_all_iff descents_sorted)

lemma PP_Cubic_init_arg_ndarray:
  "PP_Cubic_init_arg i (KnotsNdarray ks) cs = PP_Cubic_init i ks cs"
  by (simp add: PP_Cubic_init_arg_def PP_Cubic_init_def knots_values_def is_knots_ndarray_def)




subsection \<open>Differentiation\<close>

text \<open>Whatever zeros \<open>poly1d\<close> trims, the stored row is the derivative's full coefficient row.\<close>

lemma out_row4: "out_row [a, b, c, d] = [0, 3 * a, 2 * b, c]"
  by (simp add: out_row_def deriv_coefficients_def poly1d_def polyder_def arange_down_def Let_def
        numeral_2_eq_2 numeral_3_eq_3)

lemma length_out_row: "length row = 4 \<Longrightarrow> length (out_row row) = 4"
  using list4[of row] by (auto simp: out_row4)

lemma differentiate_valid:
  assumes "valid p"
  shows "differentiate p = Inr \<lparr>idx = idx p, knots = knots p, coefs = map out_row (coefs p)\<rparr>"
proof -
  have len: "length (coefs p) = 4" using assms by (simp add: valid_def shape_4x4_def)
  have "map (\<lambda>i. out_row (coefs p ! i)) [0..<4] = map out_row (coefs p)"
    using len by (simp add: list_eq_iff_nth_eq)
  moreover have "shape_4x4 (map out_row (coefs p))"
    using assms len by (simp add: valid_def shape_4x4_def list_all_iff length_out_row)
  ultimately show ?thesis
    using assms by (simp add: differentiate_def PP_Cubic_init_def valid_def)
qed

lemma row_value_expand:
  "row_value p r x = coefs p ! r ! 0 * (x - knots p ! r) ^ 3 + coefs p ! r ! 1 * (x - knots p ! r) ^ 2
      + coefs p ! r ! 2 * (x - knots p ! r) + coefs p ! r ! 3"
  by (simp add: row_value_def upt_rec[of 0] numeral_eq_Suc upt_rec[of "Suc _"])

lemma valid_differentiate:
  assumes "valid p"
  shows "valid \<lparr>idx = idx p, knots = knots p, coefs = map out_row (coefs p)\<rparr>"
  using assms by (simp add: valid_def shape_4x4_def list_all_iff length_out_row)

lemma differentiate_Inr:
  assumes "differentiate p = Inr q"
  shows "valid q \<and> knots q = knots p \<and> idx q = idx p"
  using assms by (auto simp: differentiate_def PP_Cubic_init_def valid_def split: if_splits)

lemma coefs_row4:
  assumes "valid p" "i < 4"
  shows "\<exists>a b c d. coefs p ! i = [a, b, c, d]"
proof -
  have "coefs p ! i \<in> set (coefs p)" using assms by (simp add: valid_def shape_4x4_def)
  moreover have "shape_4x4 (coefs p)" using assms by (simp add: valid_def)
  ultimately have "length (coefs p ! i) = 4" by (rule shape_4x4_rows[rotated])
  then show ?thesis by (rule list4)
qed

lemma differentiate_row:
  assumes "valid p" "i < 4"
  shows "coefs \<lparr>idx = idx p, knots = knots p, coefs = map out_row (coefs p)\<rparr> ! i
         = [0, 3 * (coefs p ! i ! 0), 2 * (coefs p ! i ! 1), coefs p ! i ! 2]"
proof -
  obtain a b c d where r: "coefs p ! i = [a, b, c, d]" using coefs_row4[OF assms] by blast
  have "length (coefs p) = 4" using assms by (simp add: valid_def shape_4x4_def)
  then show ?thesis using assms r by (simp add: out_row4)
qed

text \<open>
  Claim C10.  Whatever \<open>differentiate\<close> returns has passed the constructor: a knot vector
  of length 5 that is non-decreasing, a 4 by 4 coefficient table, and the knots and index of
  the receiver.  On a valid receiver it does return, and so does the second derivative that
  \<open>__mod__\<close> forms, again valid and with the receiver's knots and index.
\<close>

theorem C10_differentiate_invariant:
  "(differentiate p = Inr q \<longrightarrow>
      length (knots q) = 5 \<and> sorted (knots q) \<and> length (coefs q) = 4
      \<and> (\<forall>r\<in>set (coefs q). length r = 4) \<and> knots q = knots p \<and> idx q = idx p)
   \<and> (valid p \<longrightarrow>
        (\<exists>q1. differentiate p = Inr q1 \<and> valid q1)
      \<and> (\<exists>q2. differentiate2 p = Inr q2 \<and> valid q2 \<and> knots q2 = knots p \<and> idx q2 = idx p))"
proof -
  have A: "length (knots q) = 5 \<and> sorted (knots q) \<and> length (coefs q) = 4
      \<and> (\<forall>r\<in>set (coefs q). length r = 4) \<and> knots q = knots p \<and> idx q = idx p"
    if "differentiate p = Inr q"
  proof -
    from differentiate_Inr[OF that]
    have "valid q" and "knots q = knots p" and "idx q = idx p" by simp_all
    then show ?thesis
      by (simp add: valid_def shape_4x4_def list_all_iff descents_sorted)
  qed
  have B: "(\<exists>q1. differentiate p = Inr q1 \<and> valid q1)
      \<and> (\<exists>q2. differentiate2 p = Inr q2 \<and> valid q2 \<and> knots q2 = knots p \<and> idx q2 = idx p)"
    if v: "valid p"
  proof -
    let ?q = "\<lparr>idx = idx p, knots = knots p, coefs = map out_row (coefs p)\<rparr>"
    have q: "differentiate p = Inr ?q" by (rule differentiate_valid[OF v])
    have vq: "valid ?q" by (rule valid_differentiate[OF v])
    let ?r = "\<lparr>idx = idx ?q, knots = knots ?q, coefs = map out_row (coefs ?q)\<rparr>"
    have "differentiate ?q = Inr ?r" by (rule differentiate_valid[OF vq])
    moreover have "valid ?r" by (rule valid_differentiate[OF vq])
    ultimately have "\<exists>q2. differentiate2 p = Inr q2 \<and> valid q2 \<and> knots q2 = knots p \<and> idx q2 = idx p"
      using q by (simp add: differentiate2_def)
    then show ?thesis using q vq by blast
  qed
  show ?thesis using A B by blast
qed

lemma valid_unit_PP: "valid unit_PP"
  by (simp add: valid_def unit_PP_def unit_table_def shape_4x4_def descents_def)

theorem C10_differentiate_invariant_witness:
  "differentiate unit_PP
     = Inr \<lparr>idx = 3, knots = [0, 1, 2, 3, 4],
            coefs = [[0, 1/2, 0, 0], [0, -3/2, 1, 1/2], [0, 3/2, -2, 0], [0, -1/2, 1, -1/2]]\<rparr>
   \<and> (\<exists>q2. differentiate2 unit_PP = Inr q2 \<and> valid q2 \<and> knots q2 = [0, 1, 2, 3, 4] \<and> idx q2 = 3)"
proof -
  let ?q = "\<lparr>idx = 3, knots = [0, 1, 2, 3, 4],
            coefs = [[0, 1/2, 0, 0], [0, -3/2, 1, 1/2], [0, 3/2, -2, 0], [0, -1/2, 1, -1/2::real]]\<rparr>"
  have d: "differentiate unit_PP = Inr ?q"
    by (simp add: differentiate_valid[OF valid_unit_PP]) (simp add: unit_PP_def unit_table_def out_row4)
  from C10_differentiate_invariant[of unit_PP ?q] d valid_unit_PP
  show ?thesis by (simp add: unit_PP_def)
qed

lemma row_value_deriv:
  assumes "coefs q ! i = [0, 3 * (coefs p ! i ! 0), 2 * (coefs p ! i ! 1), coefs p ! i ! 2]"
      and "knots q = knots p"
  shows "((\<lambda>t. row_value p i t) has_real_derivative row_value q i x) (at x)"
  unfolding row_value_expand assms
  by (auto intro!: derivative_eq_intros simp: power2_eq_square)

lemma eval_PP_zero_rows:
  assumes "\<forall>i<4. coefs q ! i = [0, 0, 0, 0]"
  shows "eval_PP q x = 0"
proof -
  have "row_value q i x = 0" if "i < 4" for i
    using assms that by (simp add: row_value_expand)
  then show ?thesis by (simp add: eval_PP_def)
qed

text \<open>
  Claim C5.  On a valid receiver \<open>differentiate\<close> returns a new object with the same knots
  and index; row \<open>[a, b, c, d]\<close> becomes \<open>[0, 3a, 2b, c]\<close>, which is the derivative of
  the row's cubic as \<open>__call__\<close> evaluates it.  The model is a function, so the receiver
  is unchanged.  After two applications the columns 0 and 1 are zero in every row, and the
  fourth derivative evaluates to 0 at every point.
\<close>

theorem C5_differentiate:
  "valid p \<longrightarrow>
     (\<exists>q. differentiate p = Inr q \<and> knots q = knots p \<and> idx q = idx p
        \<and> (\<forall>i<4. coefs q ! i = [0, 3 * (coefs p ! i ! 0), 2 * (coefs p ! i ! 1), coefs p ! i ! 2])
        \<and> (\<forall>i<4. \<forall>x. ((\<lambda>t. row_value p i t) has_real_derivative row_value q i x) (at x))
        \<and> (\<exists>q2. differentiate q = Inr q2
              \<and> (\<forall>i<4. coefs q2 ! i ! 0 = 0 \<and> coefs q2 ! i ! 1 = 0)
              \<and> (\<exists>q3 q4. differentiate q2 = Inr q3 \<and> differentiate q3 = Inr q4
                    \<and> (\<forall>x. eval_PP q4 x = 0)
                    \<and> (\<forall>vec. PP_Cubic_call q4 vec = replicate (length vec) 0))))"
proof
  assume v: "valid p"
  define D :: "PP_Cubic \<Rightarrow> PP_Cubic" where "D = (\<lambda>p. \<lparr>idx = idx p, knots = knots p, coefs = map out_row (coefs p)\<rparr>)"
  have step: "differentiate r = Inr (D r) \<and> valid (D r) \<and> knots (D r) = knots r \<and> idx (D r) = idx r
      \<and> (\<forall>i<4. coefs (D r) ! i = [0, 3 * (coefs r ! i ! 0), 2 * (coefs r ! i ! 1), coefs r ! i ! 2])"
    if "valid r" for r
    using differentiate_valid[OF that] valid_differentiate[OF that] differentiate_row[OF that]
    by (simp add: D_def)
  let ?q = "D p" let ?q2 = "D ?q" let ?q3 = "D ?q2" let ?q4 = "D ?q3"
  note s1 = step[OF v]
  then have v1: "valid ?q" by simp
  note s2 = step[OF v1]
  then have v2: "valid ?q2" by simp
  note s3 = step[OF v2]
  then have v3: "valid ?q3" by simp
  note s4 = step[OF v3]
  have r1: "\<forall>i<4. coefs ?q ! i = [0, 3 * (coefs p ! i ! 0), 2 * (coefs p ! i ! 1), coefs p ! i ! 2]"
    using s1 by blast
  have r2: "\<forall>i<4. coefs ?q2 ! i = [0, 0, 2 * (3 * (coefs p ! i ! 0)), 2 * (coefs p ! i ! 1)]"
    using s2 r1 by simp
  have r3: "\<forall>i<4. coefs ?q3 ! i = [0, 0, 0, 2 * (3 * (coefs p ! i ! 0))]"
    using s3 r2 by simp
  have r4: "\<forall>i<4. coefs ?q4 ! i = [0, 0, 0, 0]"
    using s4 r3 by simp
  have z: "eval_PP ?q4 x = 0" for x by (rule eval_PP_zero_rows[OF r4])
  have call: "PP_Cubic_call ?q4 vec = replicate (length vec) 0" for vec
  proof -
    have "eval_PP ?q4 = (\<lambda>x. 0)" using z by auto
    then show ?thesis by (simp add: PP_Cubic_call_def map_replicate_const)
  qed
  have dv: "\<forall>i<4. \<forall>x. ((\<lambda>t. row_value p i t) has_real_derivative row_value ?q i x) (at x)"
    using r1 s1 by (auto intro!: row_value_deriv)
  have "differentiate ?q = Inr ?q2 \<and> (\<forall>i<4. coefs ?q2 ! i ! 0 = 0 \<and> coefs ?q2 ! i ! 1 = 0)
       \<and> differentiate ?q2 = Inr ?q3 \<and> differentiate ?q3 = Inr ?q4"
    using s2 s3 s4 r2 by simp
  with s1 r1 dv z call
  show "\<exists>q. differentiate p = Inr q \<and> knots q = knots p \<and> idx q = idx p
        \<and> (\<forall>i<4. coefs q ! i = [0, 3 * (coefs p ! i ! 0), 2 * (coefs p ! i ! 1), coefs p ! i ! 2])
        \<and> (\<forall>i<4. \<forall>x. ((\<lambda>t. row_value p i t) has_real_derivative row_value q i x) (at x))
        \<and> (\<exists>q2. differentiate q = Inr q2
              \<and> (\<forall>i<4. coefs q2 ! i ! 0 = 0 \<and> coefs q2 ! i ! 1 = 0)
              \<and> (\<exists>q3 q4. differentiate q2 = Inr q3 \<and> differentiate q3 = Inr q4
                    \<and> (\<forall>x. eval_PP q4 x = 0)
                    \<and> (\<forall>vec. PP_Cubic_call q4 vec = replicate (length vec) 0)))"
    by blast
qed

theorem C5_differentiate_witness:
  "valid unit_PP \<and>
     (\<exists>q. differentiate unit_PP = Inr q \<and> knots q = [0, 1, 2, 3, 4] \<and> idx q = 3
        \<and> coefs q ! 1 = [0, -3/2, 1, 1/2]
        \<and> ((\<lambda>t. row_value unit_PP 1 t) has_real_derivative row_value q 1 (3/2)) (at (3/2))
        \<and> (\<exists>q2. differentiate q = Inr q2
              \<and> coefs q2 ! 1 ! 0 = 0 \<and> coefs q2 ! 1 ! 1 = 0
              \<and> (\<exists>q3 q4. differentiate q2 = Inr q3 \<and> differentiate q3 = Inr q4
                    \<and> eval_PP q4 (3/2) = 0
                    \<and> PP_Cubic_call q4 [-1, 3/2, 4] = [0, 0, 0])))"
proof -
  from mp[OF C5_differentiate valid_unit_PP]
  obtain q q2 q3 q4 where q: "differentiate unit_PP = Inr q" "knots q = knots unit_PP"
      "idx q = idx unit_PP"
    and rows: "\<forall>i<4. coefs q ! i = [0, 3 * (coefs unit_PP ! i ! 0), 2 * (coefs unit_PP ! i ! 1),
                                 coefs unit_PP ! i ! 2]"
    and dv: "\<forall>i<4. \<forall>x. ((\<lambda>t. row_value unit_PP i t) has_real_derivative row_value q i x) (at x)"
    and q2: "differentiate q = Inr q2" "\<forall>i<4. coefs q2 ! i ! 0 = 0 \<and> coefs q2 ! i ! 1 = 0"
    and q34: "differentiate q2 = Inr q3" "differentiate q3 = Inr q4"
    and z: "\<forall>x. eval_PP q4 x = 0" "\<forall>vec. PP_Cubic_call q4 vec = replicate (length vec) 0"
    by blast
  have r1: "coefs q ! 1 = [0, -3/2, 1, 1/2]"
    using rows[rule_format, of 1] by (simp add: unit_PP_def unit_table_def)
  have d1: "((\<lambda>t. row_value unit_PP 1 t) has_real_derivative row_value q 1 (3/2)) (at (3/2))"
    using dv[rule_format, of 1] by simp
  have c: "PP_Cubic_call q4 [-1, 3/2, 4] = [0, 0, 0]"
    using z(2)[rule_format, of "[-1, 3/2, 4]"] by (simp add: numeral_3_eq_3)
  have k: "knots q = [0, 1, 2, 3, 4]" "idx q = 3" using q by (simp_all add: unit_PP_def)
  have e: "eval_PP q4 (3/2) = 0" using z(1) by simp
  have z2: "coefs q2 ! 1 ! 0 = 0" "coefs q2 ! 1 ! 1 = 0" using q2(2)[rule_format, of 1] by simp_all
  from valid_unit_PP q(1) k r1 d1 q2(1) z2 q34 e c show ?thesis
    by (intro conjI exI[of _ q] exI[of _ q2] exI[of _ q3] exI[of _ q4])
qed

subsection \<open>Evaluation\<close>

lemma list5: "length xs = 5 \<Longrightarrow> \<exists>a b c d e. xs = [a, b, c, d, e]"
proof -
  assume "length xs = 5"
  then obtain a ys where xs: "xs = a # ys" and "length ys = 4" by (cases xs) auto
  from list4[OF this(2)] xs show ?thesis by blast
qed

lemma valid_knots:
  assumes "valid p"
  obtains k0 k1 k2 k3 k4 where "knots p = [k0, k1, k2, k3, k4]"
    and "k0 \<le> k1" "k1 \<le> k2" "k2 \<le> k3" "k3 \<le> k4"
proof -
  from assms have "length (knots p) = 5" and s: "sorted (knots p)"
    by (simp_all add: valid_def descents_sorted)
  from list5[OF this(1)] obtain k0 k1 k2 k3 k4 where k: "knots p = [k0, k1, k2, k3, k4]" by blast
  with s have "k0 \<le> k1" "k1 \<le> k2" "k2 \<le> k3" "k3 \<le> k4" by simp_all
  with k show thesis by (rule that)
qed

lemma eval_PP_cases:
  assumes "valid p"
  shows "(x < knots p ! 0 \<or> x > knots p ! 4 \<longrightarrow> eval_PP p x = 0)
       \<and> (knots p ! 0 \<le> x \<and> x \<le> knots p ! 4 \<longrightarrow>
            (\<exists>r<4. knots p ! r \<le> x \<and> x \<le> knots p ! (r + 1) \<and> eval_PP p x = row_value p r x))"
proof -
  from assms obtain k0 k1 k2 k3 k4 where k: "knots p = [k0, k1, k2, k3, k4]"
    and le: "k0 \<le> k1" "k1 \<le> k2" "k2 \<le> k3" "k3 \<le> k4" by (rule valid_knots)
  have out: "eval_PP p x = 0" if "x < k0 \<or> x > k4"
    using that k by (auto simp: eval_PP_def)
  have inside: "\<exists>r<4. knots p ! r \<le> x \<and> x \<le> knots p ! (r + 1) \<and> eval_PP p x = row_value p r x"
    if "k0 \<le> x" "x \<le> k4"
  proof -
    consider "x \<le> k1" | "k1 < x" "x \<le> k2" | "k2 < x" "x < k3" | "k2 < x" "k3 \<le> x"
      by linarith
    then show ?thesis
    proof cases
      case 1
      then have "eval_PP p x = row_value p 0 x" using that k by (simp add: eval_PP_def)
      then show ?thesis using 1 that k by (intro exI[of _ 0]) simp
    next
      case 2
      then have "eval_PP p x = row_value p 1 x" using that k by (simp add: eval_PP_def)
      then show ?thesis using 2 that k by (intro exI[of _ 1]) simp
    next
      case 3
      then have "eval_PP p x = row_value p 2 x" using that k le
        by (simp add: eval_PP_def numeral_2_eq_2)
      then show ?thesis using 3 that k by (intro exI[of _ 2]) simp
    next
      case 4
      then have "eval_PP p x = row_value p 3 x" using that k le
        by (auto simp: eval_PP_def numeral_3_eq_3)
      then show ?thesis using 4 that k by (intro exI[of _ 3]) simp
    qed
  qed
  show ?thesis using out inside k by simp
qed

text \<open>
  Where the knots or the points are floats, \<open>__call__\<close> returns one number per point: 0
  for a point left of \<open>knots[0]\<close> or right of \<open>knots[4]\<close>, and for a point of
  \<open>[knots[0], knots[4]]\<close> the value of a row \<open>r\<close> whose interval
  \<open>[knots[r], knots[r+1]]\<close> contains the point, as the cubic in the point minus
  \<open>knots[r]\<close> with the row's four coefficients.
\<close>

lemma call_float_cases:
  "valid p \<longrightarrow>
     length (PP_Cubic_call p vec) = length vec
   \<and> (\<forall>n<length vec.
        (vec ! n < knots p ! 0 \<or> vec ! n > knots p ! 4 \<longrightarrow> PP_Cubic_call p vec ! n = 0)
      \<and> (knots p ! 0 \<le> vec ! n \<and> vec ! n \<le> knots p ! 4 \<longrightarrow>
           (\<exists>r<4. knots p ! r \<le> vec ! n \<and> vec ! n \<le> knots p ! (r + 1)
              \<and> PP_Cubic_call p vec ! n
                  = coefs p ! r ! 0 * (vec ! n - knots p ! r) ^ 3
                  + coefs p ! r ! 1 * (vec ! n - knots p ! r) ^ 2
                  + coefs p ! r ! 2 * (vec ! n - knots p ! r)
                  + coefs p ! r ! 3)))"
  using eval_PP_cases[of p] by (simp add: PP_Cubic_call_def row_value_expand)

lemma call_unit_PP:
  "PP_Cubic_call unit_PP [-1, 1/2, 1, 5/2, 4, 5] = [0, 1/48, 1/6, 23/48, 0, 0]"
  by (simp add: PP_Cubic_call_def eval_PP_def row_value_expand unit_PP_def unit_table_def
        power2_eq_square power3_eq_cube)

text \<open>
  Where the knots and the points are integers, the method computes the same as long as the
  cube of the distance to the knot fits into int64.
\<close>

lemma upt_0_4: "[0..<4] = [0, 1, 2, 3]"
  by (simp add: upt_rec[of 0] upt_rec[of "Suc _"] numeral_eq_Suc)

lemma int64_id: "- (2 ^ 63) \<le> n \<Longrightarrow> n < 2 ^ 63 \<Longrightarrow> int64 n = n"
  by (simp add: int64_def)

lemma small_power:
  fixes d :: int
  assumes "\<bar>d\<bar> ^ 3 < 2 ^ 63" "k \<le> 3"
  shows "int64 (int64 d ^ k) = d ^ k"
proof -
  have b: "\<bar>d ^ j\<bar> < 2 ^ 63" if "j \<le> 3" for j
  proof (cases "d = 0")
    case True
    then show ?thesis by (cases j) simp_all
  next
    case False
    then have "1 \<le> \<bar>d\<bar>" by simp
    then have "\<bar>d\<bar> ^ j \<le> \<bar>d\<bar> ^ 3" using that by (rule power_increasing[rotated])
    then show ?thesis using assms(1) by (simp add: power_abs)
  qed
  have "\<bar>d ^ 1\<bar> < 2 ^ 63" by (rule b) simp
  then have d: "int64 d = d" by (intro int64_id) simp_all
  have "\<bar>d ^ k\<bar> < 2 ^ 63" by (rule b[OF assms(2)])
  then have "int64 (d ^ k) = d ^ k" by (intro int64_id) linarith+
  with d show ?thesis by simp
qed

lemma row_value_int64_no_overflow:
  assumes "r < length ks" "\<bar>x - ks ! r\<bar> ^ 3 < 2 ^ 63"
  shows "row_value_int64 ks cs r x
       = row_value \<lparr>idx = i, knots = map real_of_int ks, coefs = cs\<rparr> r (real_of_int x)"
proof -
  have "int64 (int64 (x - ks ! r) ^ (3 - k)) = (x - ks ! r) ^ (3 - k)" for k
    by (rule small_power[OF assms(2)]) simp
  then show ?thesis using assms(1) by (simp add: row_value_int64_def row_value_def)
qed

lemma eval_PP_int64_no_overflow:
  assumes "length ks = 5" and "\<forall>r<4. \<bar>x - ks ! r\<bar> ^ 3 < 2 ^ 63"
  shows "eval_PP_int64 ks cs x
       = eval_PP \<lparr>idx = i, knots = map real_of_int ks, coefs = cs\<rparr> (real_of_int x)"
proof -
  have rv: "row_value_int64 ks cs r x
       = row_value \<lparr>idx = i, knots = map real_of_int ks, coefs = cs\<rparr> r (real_of_int x)"
    if "r < 4" for r
    using that assms by (intro row_value_int64_no_overflow) simp_all
  have f: "filter ((\<lambda>k. k \<le> real_of_int x) \<circ> real_of_int) ks = filter (\<lambda>k. k \<le> x) ks"
    by (simp add: o_def)
  have m: "min 3 (length (filter (\<lambda>k. k \<le> x) ks) - 1) < 4" by simp
  show ?thesis
    using assms(1) by (simp add: eval_PP_int64_def eval_PP_def filter_map f rv[OF m] rv)
qed

text \<open>
  Claim C3: every point of \<open>[knots[0], knots[4]]\<close> yields the value of the row of its
  interval as a cubic in the point minus the start of the interval.  The code breaks it on
  integer arrays.  With the knots 0, 3000000, 3000001, 3000002, 3000003, every row
  \<open>[1, 0, 0, 0]\<close> and the point 2500000, the point lies in the first interval and the
  cubic is \<open>2500000^3 = 15625000000000000000\<close>; the code takes the power in int64 and
  returns \<open>15625000000000000000 - 2^64\<close>.
\<close>

theorem C3_int64_overflow:
  "eval_PP_int64 [0, 3000000, 3000001, 3000002, 3000003]
       [[1, 0, 0, 0], [1, 0, 0, 0], [1, 0, 0, 0], [1, 0, 0, 0]] 2500000
     = - 2821744073709551616
   \<and> PP_Cubic_call_int64 [0, 3000000, 3000001, 3000002, 3000003]
       [[1, 0, 0, 0], [1, 0, 0, 0], [1, 0, 0, 0], [1, 0, 0, 0]] [2500000]
     = [- 2821744073709551616]
   \<and> (1::real) * (2500000 - 0) ^ 3 + 0 * (2500000 - 0) ^ 2 + 0 * (2500000 - 0) + 0
     = 15625000000000000000"
  by (simp add: PP_Cubic_call_int64_def eval_PP_int64_def row_value_int64_def int64_def upt_0_4)

subsection \<open>Basis construction\<close>

lemma collect_Inr:
  "collect xs = Inr ys \<Longrightarrow> length ys = length xs \<and> (\<forall>i<length xs. xs ! i = Inr (ys ! i))"
proof (induction xs arbitrary: ys)
  case Nil
  then show ?case by simp
next
  case (Cons x xs)
  then obtain v vs where x: "x = Inr v" and c: "collect xs = Inr vs" and ys: "ys = v # vs"
    by (auto split: sum.splits)
  from Cons.IH[OF c] x ys show ?case by (auto simp: nth_Cons split: nat.splits)
qed

lemma collect_upt_Inr:
  "collect (map f [0..<n]) = Inr ys \<Longrightarrow> length ys = n \<and> (\<forall>i<n. f i = Inr (ys ! i))"
  using collect_Inr[of "map f [0..<n]" ys] by simp

lemma collect_map_Inr:
  "(\<And>x. x \<in> set xs \<Longrightarrow> f x = Inr (g x)) \<Longrightarrow> collect (map f xs) = Inr (map g xs)"
  by (induction xs) auto

lemma length_data_padded: "length (data_padded data) = length data + 6"
  by (simp add: data_padded_def)

lemma data_padded_hd_last:
  "data \<noteq> [] \<Longrightarrow> data_padded data = replicate 3 (hd data) @ data @ replicate 3 (last data)"
  by (simp add: data_padded_def hd_conv_nth last_conv_nth)

lemma sorted_data_padded:
  assumes "sorted data" "data \<noteq> []"
  shows "sorted (data_padded data)"
proof -
  have lo: "hd data \<le> x" if "x \<in> set data" for x
    using assms that by (cases data) auto
  have hi: "x \<le> last data" if "x \<in> set data" for x
  proof -
    from that obtain i where i: "i < length data" and x: "x = data ! i"
      by (auto simp: in_set_conv_nth)
    have "data ! i \<le> data ! (length data - 1)"
      using assms(1) i by (intro sorted_nth_mono) simp_all
    then show ?thesis using x assms(2) by (simp add: last_conv_nth)
  qed
  have "hd data \<le> last data" using lo[of "last data"] assms(2) by simp
  have a: "sorted (data @ replicate 3 (last data))"
    using assms(1) hi by (simp add: sorted_append)
  have b: "sorted (replicate 3 (hd data) @ (data @ replicate 3 (last data)))"
    using a lo \<open>hd data \<le> last data\<close> by (subst sorted_append) auto
  then show ?thesis using assms(2) by (simp add: data_padded_hd_last)
qed

lemma window_props:
  assumes "i < length data + 2"
  shows "length (window (data_padded data) i) = 5"
    and "sorted data \<Longrightarrow> data \<noteq> [] \<Longrightarrow> sorted (window (data_padded data) i)"
    and "r < 5 \<Longrightarrow> window (data_padded data) i ! r = data_padded data ! (i + r)"
  using assms sorted_data_padded[of data]
  by (simp_all add: window_def length_data_padded)



lemma basis_count: "nat (int (length data) - 2 + 4) = length data + 2"
  by simp

lemma PP_Cubic_init_Inr:
  "PP_Cubic_init i ks cs = Inr q \<Longrightarrow> valid q \<and> idx q = i \<and> knots q = ks \<and> coefs q = cs"
  by (auto simp: PP_Cubic_init_def valid_def split: if_splits)

lemma get_BSbasis_Inr:
  assumes "get_BSbasis cT data = Inr basis"
  shows "data \<noteq> []" and "length basis = length data + 2"
    and "i < length basis \<Longrightarrow> valid (basis ! i) \<and> idx (basis ! i) = int i
            \<and> knots (basis ! i) = window (data_padded data) i"
proof -
  show ne: "data \<noteq> []" using assms by (auto simp: get_BSbasis_def)
  let ?f = "\<lambda>i. case cT (window (data_padded data) i) of
                   Inl e \<Rightarrow> Inl e
                 | Inr c \<Rightarrow> PP_Cubic_init (int i) (window (data_padded data) i) (take 4 (drop 3 c))"
  have c: "collect (map ?f [0..<length data + 2]) = Inr basis"
    using assms ne by (simp only: get_BSbasis_def basis_count if_False)
  from collect_upt_Inr[OF c]
  have len: "length basis = length data + 2"
    and each: "\<forall>i<length data + 2. ?f i = Inr (basis ! i)" by blast+
  show "length basis = length data + 2" by (rule len)
  assume "i < length basis"
  with len each have "?f i = Inr (basis ! i)" by simp
  then obtain c where "PP_Cubic_init (int i) (window (data_padded data) i) (take 4 (drop 3 c))
      = Inr (basis ! i)"
    by (auto split: sum.splits)
  from PP_Cubic_init_Inr[OF this]
  show "valid (basis ! i) \<and> idx (basis ! i) = int i
            \<and> knots (basis ! i) = window (data_padded data) i" by simp
qed

lemma get_BSbasis_returns:
  assumes "sorted data" "data \<noteq> []"
      and "\<forall>i<length data + 2. \<exists>c. cT (window (data_padded data) i) = Inr c
              \<and> shape_4x4 (take 4 (drop 3 c))"
  shows "\<exists>basis. get_BSbasis cT data = Inr basis"
proof -
  let ?w = "window (data_padded data)"
  let ?f = "\<lambda>i. case cT (?w i) of
                   Inl e \<Rightarrow> Inl e
                 | Inr c \<Rightarrow> PP_Cubic_init (int i) (?w i) (take 4 (drop 3 c))"
  let ?g = "\<lambda>i. \<lparr>idx = int i, knots = ?w i, coefs = take 4 (drop 3 (projr (cT (?w i))))\<rparr>"
  have "?f i = Inr (?g i)" if "i \<in> set [0..<length data + 2]" for i
  proof -
    from that have i: "i < length data + 2" by (simp only: set_upt atLeastLessThan_iff)
    with assms(3) obtain c where c: "cT (?w i) = Inr c" "shape_4x4 (take 4 (drop 3 c))" by blast
    have "length (?w i) = 5" "descents (?w i) = 0"
      using window_props(1,2)[OF i] assms(1,2) by (simp_all add: descents_sorted)
    then show ?thesis using c by (simp add: PP_Cubic_init_def)
  qed
  then have "collect (map ?f [0..<length data + 2]) = Inr (map ?g [0..<length data + 2])"
    by (rule collect_map_Inr)
  then show ?thesis using assms(2) by (simp only: get_BSbasis_def basis_count if_False) blast
qed

text \<open>
  Claim C4.  For a sorted array of \<open>N \<ge> 2\<close> reals, the padded array is the first value
  three times, the data, and the last value three times, \<open>N + 6\<close> knots in all.  Provided
  scipy answers every window with a table whose rows 3 to 6 form a 4 by 4 table,
  \<open>get_BSbasis\<close> returns \<open>N + 2\<close> objects, the \<open>i\<close>-th with index \<open>i\<close> and the knots
  \<open>data_padded[i:i+5]\<close>.  The example below is the input 0, 1, ..., 10 with its 13 basis
  functions.
\<close>

theorem C4_get_BSbasis:
  "sorted data \<and> 2 \<le> length data
   \<and> (\<forall>i<length data + 2. \<exists>c. cT (window (data_padded data) i) = Inr c
          \<and> shape_4x4 (take 4 (drop 3 c)))
   \<longrightarrow> data_padded data = replicate 3 (hd data) @ data @ replicate 3 (last data)
     \<and> length (data_padded data) = length data + 6
     \<and> (\<exists>basis. get_BSbasis cT data = Inr basis
          \<and> length basis = length data + 2
          \<and> (\<forall>i<length data + 2. idx (basis ! i) = int i
                \<and> knots (basis ! i) = take 5 (drop i (data_padded data))))"
proof
  assume h: "sorted data \<and> 2 \<le> length data
   \<and> (\<forall>i<length data + 2. \<exists>c. cT (window (data_padded data) i) = Inr c
          \<and> shape_4x4 (take 4 (drop 3 c)))"
  then have ne: "data \<noteq> []" by auto
  from get_BSbasis_returns[of data cT] h ne
  obtain basis where b: "get_BSbasis cT data = Inr basis" by blast
  have "length basis = length data + 2" by (rule get_BSbasis_Inr(2)[OF b])
  moreover have "\<forall>i<length data + 2. idx (basis ! i) = int i
                \<and> knots (basis ! i) = take 5 (drop i (data_padded data))"
    using get_BSbasis_Inr(3)[OF b] calculation by (simp add: window_def)
  ultimately show "data_padded data = replicate 3 (hd data) @ data @ replicate 3 (last data)
     \<and> length (data_padded data) = length data + 6
     \<and> (\<exists>basis. get_BSbasis cT data = Inr basis
          \<and> length basis = length data + 2
          \<and> (\<forall>i<length data + 2. idx (basis ! i) = int i
                \<and> knots (basis ! i) = take 5 (drop i (data_padded data))))"
    using b ne by (simp add: data_padded_hd_last length_data_padded)
qed

lemma demo_cT_shape: "\<exists>c. demo_cT w = Inr c \<and> shape_4x4 (take 4 (drop 3 c))"
  by (simp add: demo_cT_def unit_table_def shape_4x4_def)

theorem C4_get_BSbasis_witness:
  "sorted [0, 1, 2, 3, 4, 5, 6, 7, 8, 9, 10 :: real]
   \<and> (\<exists>basis. get_BSbasis demo_cT [0, 1, 2, 3, 4, 5, 6, 7, 8, 9, 10] = Inr basis
        \<and> length basis = 13
        \<and> idx (basis ! 3) = 3 \<and> knots (basis ! 3) = [0, 1, 2, 3, 4]
        \<and> idx (basis ! 0) = 0 \<and> knots (basis ! 0) = [0, 0, 0, 0, 1]
        \<and> idx (basis ! 12) = 12 \<and> knots (basis ! 12) = [9, 10, 10, 10, 10])"
proof -
  let ?d = "[0, 1, 2, 3, 4, 5, 6, 7, 8, 9, 10 :: real]"
  have s: "sorted ?d" by simp
  have p: "data_padded ?d = [0, 0, 0, 0, 1, 2, 3, 4, 5, 6, 7, 8, 9, 10, 10, 10, 10]"
    by (simp add: data_padded_def numeral_3_eq_3)
  from C4_get_BSbasis[of ?d demo_cT] s demo_cT_shape
  obtain basis where b: "get_BSbasis demo_cT ?d = Inr basis" "length basis = 13"
     and k: "\<forall>i<13. idx (basis ! i) = int i \<and> knots (basis ! i) = take 5 (drop i (data_padded ?d))"
    by auto
  from k have "idx (basis ! 3) = 3 \<and> knots (basis ! 3) = [0, 1, 2, 3, 4]
        \<and> idx (basis ! 0) = 0 \<and> knots (basis ! 0) = [0, 0, 0, 0, 1]
        \<and> idx (basis ! 12) = 12 \<and> knots (basis ! 12) = [9, 10, 10, 10, 10]"
    unfolding p by simp
  with b s show ?thesis by blast
qed

subsection \<open>The product of second derivatives\<close>

lemma integ_at4: "integ_at [0, u, v, w] h = u * h ^ 3 / 3 + v * h ^ 2 / 2 + w * h"
  by (simp add: integ_at_def poly1d_def polyint_def polyval_def arange_down_def Let_def
        power2_eq_square power3_eq_cube algebra_simps)

lemma integ_at_zeros: "integ_at [0, 0, 0, 0] h = 0"
  using integ_at4[of 0 0 0 h] by simp

lemma integ_at4_0: "integ_at [0, u, v, w] 0 = 0"
  by (simp add: integ_at4)

lemma np_convolve2: "np_convolve [p, q] [r, s] = Inr [p * r, p * s + q * r, q * s]"
  by (simp add: np_convolve_def upt_rec[of 0] upt_rec[of "Suc _"] numeral_2_eq_2 numeral_3_eq_3)

lemma differentiate2_valid:
  assumes "valid p"
  shows "differentiate2 p
     = Inr \<lparr>idx = idx p, knots = knots p, coefs = map (\<lambda>r. out_row (out_row r)) (coefs p)\<rparr>"
  using differentiate_valid[OF assms] differentiate_valid[OF valid_differentiate[OF assms]]
  by (simp add: differentiate2_def)


lemma out_row_twice: "length r = 4 \<Longrightarrow> out_row (out_row r) = [0, 0, 6 * r ! 0, 2 * r ! 1]"
  using list4[of r] by (auto simp: out_row4)

lemma valid_coefs:
  assumes "valid p"
  obtains r0 r1 r2 r3 where "coefs p = [r0, r1, r2, r3]"
    "length r0 = 4" "length r1 = 4" "length r2 = 4" "length r3 = 4"
proof -
  from assms have l: "length (coefs p) = 4" and a: "list_all (\<lambda>r. length r = 4) (coefs p)"
    by (simp_all add: valid_def shape_4x4_def)
  from list4[OF l] obtain r0 r1 r2 r3 where c: "coefs p = [r0, r1, r2, r3]" by blast
  with a have "length r0 = 4" "length r1 = 4" "length r2 = 4" "length r3 = 4" by simp_all
  with c show thesis by (rule that)
qed

lemma assign_block_explicit:
  "assign_block 0 4 [[a0, b0, c0], [a1, b1, c1], [a2, b2, c2], [a3, b3, c3]]
     = Inr [[0, a0, b0, c0], [0, a1, b1, c1], [0, a2, b2, c2], [0, a3, b3, c3]]"
  "assign_block (Suc 0) 4 [[a1, b1, c1], [a2, b2, c2], [a3, b3, c3]]
     = Inr [[0, 0, 0, 0], [0, a1, b1, c1], [0, a2, b2, c2], [0, a3, b3, c3]]"
  "assign_block 2 4 [[a2, b2, c2], [a3, b3, c3]]
     = Inr [[0, 0, 0, 0], [0, 0, 0, 0], [0, a2, b2, c2], [0, a3, b3, c3]]"
  "assign_block 3 4 [[a3, b3, c3]]
     = Inr [[0, 0, 0, 0], [0, 0, 0, 0], [0, 0, 0, 0], [0, a3, b3, c3]]"
  "assign_block 0 3 [[a0, b0, c0], [a1, b1, c1], [a2, b2, c2]]
     = Inr [[0, a0, b0, c0], [0, a1, b1, c1], [0, a2, b2, c2], [0, 0, 0, 0]]"
  "assign_block 0 2 [[a0, b0, c0], [a1, b1, c1]]
     = Inr [[0, a0, b0, c0], [0, a1, b1, c1], [0, 0, 0, 0], [0, 0, 0, 0]]"
  "assign_block 0 (Suc 0) [[a0, b0, c0]]
     = Inr [[0, a0, b0, c0], [0, 0, 0, 0], [0, 0, 0, 0], [0, 0, 0, 0]]"
  by (simp_all add: assign_block_def numeral_eq_Suc)

lemmas mod_unfold = PP_Cubic_mod_def prod_coefs_def slice_from_def slice_to_def slice_bound_def
  cols_from_def conv_def assign_block_explicit total_loop_def overlap_def seg_def

lemma upt4: "[0..<4] = [0, 1, 2, 3]" "[0..<3] = [0, 1, 2]" "[0..<2] = [0, 1]" "[0..<1] = [0]"
  by (simp_all add: upt_rec[of 0] upt_rec[of "Suc _"] numeral_eq_Suc)

lemma mod_closed_form:
  assumes "valid f" "valid g"
  shows "PP_Cubic_mod f g = Inr (overlap f g)"
proof -
  from assms(1) obtain r0 r1 r2 r3 where F: "coefs f = [r0, r1, r2, r3]"
    and lr: "length r0 = 4" "length r1 = 4" "length r2 = 4" "length r3 = 4" by (rule valid_coefs)
  from assms(2) obtain s0 s1 s2 s3 where G: "coefs g = [s0, s1, s2, s3]"
    and ls: "length s0 = 4" "length s1 = 4" "length s2 = 4" "length s3 = 4" by (rule valid_coefs)
  from assms(1) obtain k0 k1 k2 k3 k4 where K: "knots f = [k0, k1, k2, k3, k4]"
    by (rule valid_knots)
  note D = differentiate2_valid[OF assms(1)] differentiate2_valid[OF assms(2)]
  note rows = out_row_twice[OF lr(1)] out_row_twice[OF lr(2)] out_row_twice[OF lr(3)] out_row_twice[OF lr(4)]
     out_row_twice[OF ls(1)] out_row_twice[OF ls(2)] out_row_twice[OF ls(3)] out_row_twice[OF ls(4)]
  consider "\<bar>idx f - idx g\<bar> > 3" | "idx g = idx f" | "idx g = idx f + 1" | "idx g = idx f + 2"
    | "idx g = idx f + 3" | "idx g = idx f - 1" | "idx g = idx f - 2" | "idx g = idx f - 3"
    by linarith
  then show ?thesis
  proof cases
    case 1
    then have "\<bar>idx g - idx f\<bar> > 3" by linarith
    with 1 show ?thesis by (simp add: PP_Cubic_mod_def overlap_def)
  next
    case 2
    then show ?thesis
      by (simp add: mod_unfold D F G rows np_convolve2 integ_at4 integ_at_zeros upt4 K)
  next
    case 3
    then show ?thesis
      by (simp add: mod_unfold D F G rows np_convolve2 integ_at4 integ_at_zeros upt4 K)
  next
    case 4
    then show ?thesis
      by (simp add: mod_unfold D F G rows np_convolve2 integ_at4 integ_at_zeros upt4 K)
  next
    case 5
    then show ?thesis
      by (simp add: mod_unfold D F G rows np_convolve2 integ_at4 integ_at_zeros upt4 K)
  next
    case 6
    then show ?thesis
      by (simp add: mod_unfold D F G rows np_convolve2 integ_at4 integ_at_zeros upt4 K)
  next
    case 7
    then show ?thesis
      by (simp add: mod_unfold D F G rows np_convolve2 integ_at4 integ_at_zeros upt4 K)
  next
    case 8
    then show ?thesis
      by (simp add: mod_unfold D F G rows np_convolve2 integ_at4 integ_at_zeros upt4 K)
  qed
qed

lemma seg_sym: "seg r s h = seg s r h"
  by (simp add: seg_def algebra_simps)

lemma overlap_sym_aligned:
  assumes "0 \<le> idx g - idx f"
      and al: "\<And>r. nat (idx g - idx f) + r \<le> 4 \<Longrightarrow> knots g ! r = knots f ! (nat (idx g - idx f) + r)"
  shows "overlap f g = overlap g f"
proof (cases "idx g - idx f > 3")
  case True
  then show ?thesis by (simp add: overlap_def)
next
  case False
  define d where "d = nat (idx g - idx f)"
  have d: "idx g - idx f = int d" "d \<le> 3" using assms(1) False by (simp_all add: d_def)
  have terms: "map (\<lambda>k. seg (coefs f ! (d + k)) (coefs g ! k) (knots f ! (d + k + 1) - knots f ! (d + k)))
                 [0..<4 - d]
             = map (\<lambda>k. seg (coefs g ! k) (coefs f ! (d + k)) (knots g ! (k + 1) - knots g ! k))
                 [0..<4 - d]"
  proof (rule map_cong[OF refl])
    fix k assume "k \<in> set [0..<4 - d]"
    then have k: "d + k < 4" by simp
    have "knots g ! (k + 1) = knots f ! (d + (k + 1))" "knots g ! k = knots f ! (d + k)"
      using al[of "k + 1"] al[of k] k by (simp_all add: d_def)
    then show "seg (coefs f ! (d + k)) (coefs g ! k) (knots f ! (d + k + 1) - knots f ! (d + k))
        = seg (coefs g ! k) (coefs f ! (d + k)) (knots g ! (k + 1) - knots g ! k)"
      by (simp add: seg_sym add.assoc)
  qed
  have fg: "overlap f g = sum_list (map (\<lambda>k. seg (coefs f ! (d + k)) (coefs g ! k)
                 (knots f ! (d + k + 1) - knots f ! (d + k))) [0..<4 - d])"
    using d by (simp add: overlap_def)
  have gf: "overlap g f = sum_list (map (\<lambda>k. seg (coefs g ! k) (coefs f ! (d + k))
                 (knots g ! (k + 1) - knots g ! k)) [0..<4 - d])"
  proof (cases "d = 0")
    case True
    then have "idx f - idx g = 0" using d by simp
    then show ?thesis using True by (simp add: overlap_def)
  next
    case False
    then have "idx f - idx g = - int d" "\<not> 0 \<le> idx f - idx g" "\<not> \<bar>idx f - idx g\<bar> > 3"
      using d by simp_all
    then show ?thesis by (simp add: overlap_def)
  qed
  show ?thesis unfolding fg gf terms ..
qed

lemma basis_aligned:
  assumes b: "get_BSbasis cT data = Inr basis" and "i \<le> j" "j < length basis"
  shows "0 \<le> idx (basis ! j) - idx (basis ! i)"
    and "nat (idx (basis ! j) - idx (basis ! i)) + r \<le> 4 \<Longrightarrow>
           knots (basis ! j) ! r = knots (basis ! i) ! (nat (idx (basis ! j) - idx (basis ! i)) + r)"
proof -
  have i: "i < length basis" using assms by simp
  note fi = get_BSbasis_Inr(3)[OF b i] and fj = get_BSbasis_Inr(3)[OF b assms(3)]
  have len: "length basis = length data + 2" by (rule get_BSbasis_Inr(2)[OF b])
  show "0 \<le> idx (basis ! j) - idx (basis ! i)" using fi fj assms(2) by simp
  have d: "nat (idx (basis ! j) - idx (basis ! i)) = j - i" using fi fj assms(2) by simp
  assume "nat (idx (basis ! j) - idx (basis ! i)) + r \<le> 4"
  then have r: "j - i + r < 5" "r < 5" using d by simp_all
  have "knots (basis ! j) ! r = data_padded data ! (j + r)"
    using fj window_props(3)[of j data r] assms(3) len r by simp
  moreover have "knots (basis ! i) ! (j - i + r) = data_padded data ! (i + (j - i + r))"
    using fi window_props(3)[of i data "j - i + r"] i len r by simp
  ultimately show "knots (basis ! j) ! r
      = knots (basis ! i) ! (nat (idx (basis ! j) - idx (basis ! i)) + r)"
    using d assms(2) by simp
qed

lemma basis_overlap_sym:
  assumes b: "get_BSbasis cT data = Inr basis" and "i < length basis" "j < length basis"
  shows "overlap (basis ! i) (basis ! j) = overlap (basis ! j) (basis ! i)"
proof (cases "i \<le> j")
  case True
  show ?thesis
    by (rule overlap_sym_aligned[OF basis_aligned(1)[OF b True assms(3)]
                                    basis_aligned(2)[OF b True assms(3)]])
next
  case False
  then have ji: "j \<le> i" by simp
  show ?thesis
    by (rule overlap_sym_aligned[OF basis_aligned(1)[OF b ji assms(2)]
                                    basis_aligned(2)[OF b ji assms(2)], symmetric])
qed

lemma get_penalty_matrix_valid:
  assumes "list_all valid B"
  shows "get_penalty_matrix B
     = Inr \<lparr>shape = [length B, length B], entries = map (\<lambda>bi. map (\<lambda>bj. overlap bi bj) B) B\<rparr>"
proof -
  have inner: "collect (map (\<lambda>bj. PP_Cubic_mod bi bj) B) = Inr (map (\<lambda>bj. overlap bi bj) B)"
    if "bi \<in> set B" for bi
    using assms that by (intro collect_map_Inr mod_closed_form) (simp_all add: list_all_iff)
  have "collect (map (\<lambda>bi. collect (map (\<lambda>bj. PP_Cubic_mod bi bj) B)) B)
      = Inr (map (\<lambda>bi. map (\<lambda>bj. overlap bi bj) B) B)"
    by (rule collect_map_Inr) (rule inner)
  then show ?thesis by (simp add: get_penalty_matrix_def)
qed

lemma get_BSbasis_all_valid:
  assumes "get_BSbasis cT data = Inr basis"
  shows "list_all valid basis" and "basis \<noteq> []"
  using get_BSbasis_Inr(2,3)[OF assms] by (auto simp: list_all_length)

lemma penalty_entry:
  assumes "list_all valid B" "i < length B" "j < length B"
  shows "\<exists>P. get_penalty_matrix B = Inr P \<and> entries P ! i ! j = overlap (B ! i) (B ! j)"
  using assms by (simp add: get_penalty_matrix_valid)

text \<open>
  Claim C1.  For two basis functions built by \<open>get_BSbasis\<close> from the same data,
  \<open>f % g\<close> and \<open>g % f\<close> return, and return the same number, whichever of the three
  branches each call takes; so the penalty matrix of every basis exists and is symmetric.
\<close>

theorem C1_symmetry:
  "get_BSbasis cT data = Inr basis \<and> i < length basis \<and> j < length basis \<longrightarrow>
     PP_Cubic_mod (basis ! i) (basis ! j) = PP_Cubic_mod (basis ! j) (basis ! i)
   \<and> (\<exists>v. PP_Cubic_mod (basis ! i) (basis ! j) = Inr v)
   \<and> (\<exists>P. get_penalty_matrix basis = Inr P \<and> entries P ! i ! j = entries P ! j ! i)"
proof
  assume h: "get_BSbasis cT data = Inr basis \<and> i < length basis \<and> j < length basis"
  then have b: "get_BSbasis cT data = Inr basis" and i: "i < length basis" and j: "j < length basis"
    by simp_all
  have v: "list_all valid basis" by (rule get_BSbasis_all_valid(1)[OF b])
  then have vi: "valid (basis ! i)" and vj: "valid (basis ! j)"
    using i j by (simp_all add: list_all_length)
  have s: "overlap (basis ! i) (basis ! j) = overlap (basis ! j) (basis ! i)"
    by (rule basis_overlap_sym[OF b i j])
  have m: "PP_Cubic_mod (basis ! i) (basis ! j) = Inr (overlap (basis ! i) (basis ! j))"
          "PP_Cubic_mod (basis ! j) (basis ! i) = Inr (overlap (basis ! j) (basis ! i))"
    by (rule mod_closed_form[OF vi vj], rule mod_closed_form[OF vj vi])
  have "\<exists>P. get_penalty_matrix basis = Inr P \<and> entries P ! i ! j = entries P ! j ! i"
    using v i j s by (simp add: get_penalty_matrix_valid)
  with m s show "PP_Cubic_mod (basis ! i) (basis ! j) = PP_Cubic_mod (basis ! j) (basis ! i)
   \<and> (\<exists>v. PP_Cubic_mod (basis ! i) (basis ! j) = Inr v)
   \<and> (\<exists>P. get_penalty_matrix basis = Inr P \<and> entries P ! i ! j = entries P ! j ! i)"
    by simp
qed

lemma demo_basis:
  assumes "sorted data" "data \<noteq> []"
  obtains basis where "get_BSbasis demo_cT data = Inr basis" "length basis = length data + 2"
proof -
  from get_BSbasis_returns[OF assms, of demo_cT] demo_cT_shape
  obtain basis where b: "get_BSbasis demo_cT data = Inr basis" by blast
  show thesis by (rule that[OF b get_BSbasis_Inr(2)[OF b]])
qed

theorem C1_symmetry_witness:
  "\<exists>basis. get_BSbasis demo_cT [0, 1, 2] = Inr basis \<and> 1 < length basis \<and> 3 < length basis
     \<and> PP_Cubic_mod (basis ! 1) (basis ! 3) = PP_Cubic_mod (basis ! 3) (basis ! 1)
     \<and> (\<exists>v. PP_Cubic_mod (basis ! 1) (basis ! 3) = Inr v)
     \<and> (\<exists>P. get_penalty_matrix basis = Inr P \<and> entries P ! 1 ! 3 = entries P ! 3 ! 1)"
proof -
  obtain basis where b: "get_BSbasis demo_cT [0, 1, 2] = Inr basis" and l: "length basis = 5"
    by (rule demo_basis[of "[0, 1, 2]"]) simp_all
  have h: "get_BSbasis demo_cT [0, 1, 2] = Inr basis \<and> 1 < length basis \<and> 3 < length basis"
    using b l by simp
  have c: "PP_Cubic_mod (basis ! 1) (basis ! 3) = PP_Cubic_mod (basis ! 3) (basis ! 1)
     \<and> (\<exists>v. PP_Cubic_mod (basis ! 1) (basis ! 3) = Inr v)
     \<and> (\<exists>P. get_penalty_matrix basis = Inr P \<and> entries P ! 1 ! 3 = entries P ! 3 ! 1)"
    by (rule mp[OF C1_symmetry h])
  from h c show ?thesis by (intro exI[of _ basis]) (elim conjE, intro conjI, assumption+)
qed

text \<open>
  Claim C2.  When the indices of \<open>f\<close> and \<open>g\<close> differ by more than 3, \<open>f % g\<close> returns 0
  at once: the test on the indices is the first statement of \<open>__mod__\<close>, and it decides
  the result whatever the knots and coefficients are, before anything is differentiated,
  convolved or integrated.  Hence the entry \<open>(i, j)\<close> of the penalty matrix of every basis
  is 0 whenever \<open>|i - j| > 3\<close>.
\<close>

theorem C2_banded:
  "(\<bar>idx f - idx g\<bar> > 3 \<longrightarrow> PP_Cubic_mod f g = Inr 0)
   \<and> (get_BSbasis cT data = Inr basis \<and> i < length basis \<and> j < length basis
        \<and> \<bar>int i - int j\<bar> > 3
      \<longrightarrow> (\<exists>P. get_penalty_matrix basis = Inr P \<and> entries P ! i ! j = 0))"
proof (rule conjI; rule impI)
  assume "\<bar>idx f - idx g\<bar> > 3"
  then show "PP_Cubic_mod f g = Inr 0" by (simp add: PP_Cubic_mod_def)
next
  assume h: "get_BSbasis cT data = Inr basis \<and> i < length basis \<and> j < length basis
        \<and> \<bar>int i - int j\<bar> > 3"
  then have b: "get_BSbasis cT data = Inr basis" and i: "i < length basis" and j: "j < length basis"
    and far: "\<bar>int i - int j\<bar> > 3" by simp_all
  have v: "list_all valid basis" by (rule get_BSbasis_all_valid(1)[OF b])
  have "idx (basis ! i) = int i" "idx (basis ! j) = int j"
    using get_BSbasis_Inr(3)[OF b i] get_BSbasis_Inr(3)[OF b j] by simp_all
  moreover have "\<bar>int j - int i\<bar> > 3" using far by linarith
  ultimately have "overlap (basis ! i) (basis ! j) = 0" by (simp add: overlap_def)
  then show "\<exists>P. get_penalty_matrix basis = Inr P \<and> entries P ! i ! j = 0"
    using v i j by (simp add: get_penalty_matrix_valid)
qed

theorem C2_banded_witness:
  "PP_Cubic_mod unit_PP (unit_PP\<lparr>idx := 7, knots := [4, 5, 6, 7, 8]\<rparr>) = Inr 0
   \<and> (\<exists>basis. get_BSbasis demo_cT [0, 1, 2] = Inr basis \<and> 0 < length basis \<and> 4 < length basis
        \<and> (\<exists>P. get_penalty_matrix basis = Inr P \<and> entries P ! 0 ! 4 = 0))"
proof -
  let ?g = "unit_PP\<lparr>idx := 7, knots := [4, 5, 6, 7, 8]\<rparr>"
  obtain basis where b: "get_BSbasis demo_cT [0, 1, 2] = Inr basis" and l: "length basis = 5"
    by (rule demo_basis[of "[0, 1, 2]"]) simp_all
  have h: "get_BSbasis demo_cT [0, 1, 2] = Inr basis \<and> 0 < length basis \<and> 4 < length basis
      \<and> \<bar>int 0 - int 4\<bar> > 3"
    using b l by simp
  have far: "\<bar>idx unit_PP - idx ?g\<bar> > 3" by (simp add: unit_PP_def)
  note c = C2_banded[of unit_PP ?g demo_cT "[0, 1, 2]" basis 0 4]
  have 1: "PP_Cubic_mod unit_PP ?g = Inr 0" by (rule mp[OF conjunct1[OF c] far])
  have 2: "\<exists>P. get_penalty_matrix basis = Inr P \<and> entries P ! 0 ! 4 = 0"
    by (rule mp[OF conjunct2[OF c] h])
  from 1 2 b l show ?thesis by (intro conjI exI[of _ basis]) simp_all
qed

subsection \<open>The matrices\<close>

lemma get_basis_matrix_nonempty:
  assumes "B \<noteq> []"
  shows "get_basis_matrix data B
     = \<lparr>shape = [length data, length B],
        entries = map (\<lambda>n. map (\<lambda>b. eval_PP b (data ! n)) B) [0..<length data]\<rparr>"
proof -
  let ?rows = "map (\<lambda>basis. PP_Cubic_call basis data) B"
  have hd: "length (hd ?rows) = length data"
    using assms by (simp add: hd_map PP_Cubic_call_def)
  have "map (\<lambda>j. map (\<lambda>r. r ! j) ?rows) [0..<length data]
      = map (\<lambda>n. map (\<lambda>b. eval_PP b (data ! n)) B) [0..<length data]"
    by (rule map_cong[OF refl]) (simp add: PP_Cubic_call_def)
  then show ?thesis
    using assms hd by (simp add: get_basis_matrix_def T_def np_array_def)
qed

lemma collect_differentiate:
  assumes "list_all valid B"
  shows "collect (map differentiate B)
     = Inr (map (\<lambda>p. \<lparr>idx = idx p, knots = knots p, coefs = map out_row (coefs p)\<rparr>) B)"
  using assms by (intro collect_map_Inr differentiate_valid) (simp add: list_all_iff)

text \<open>
  Claim C9.  A basis is what \<open>get_BSbasis\<close> returns: a non-empty sequence of valid
  objects (\<open>get_BSbasis_all_valid\<close>).  For every such sequence and every array of points
  the value matrix and the derivative matrix have the shape (number of points, number of
  basis functions) and the penalty matrix the shape (number of basis functions, number of
  basis functions), with entries to match; the derivative matrix is the value matrix of
  the differentiated basis functions.
\<close>

theorem C9_matrices:
  "BSbasis \<noteq> [] \<and> list_all valid BSbasis \<longrightarrow>
     shape (get_basis_matrix data BSbasis) = [length data, length BSbasis]
   \<and> length (entries (get_basis_matrix data BSbasis)) = length data
   \<and> (\<forall>n<length data. length (entries (get_basis_matrix data BSbasis) ! n) = length BSbasis)
   \<and> (\<exists>BSderiv D. collect (map differentiate BSbasis) = Inr BSderiv
          \<and> get_deriv_matrix data BSbasis = Inr D
          \<and> D = get_basis_matrix data BSderiv
          \<and> shape D = [length data, length BSbasis]
          \<and> length (entries D) = length data
          \<and> (\<forall>n<length data. length (entries D ! n) = length BSbasis))
   \<and> (\<exists>P. get_penalty_matrix BSbasis = Inr P
          \<and> shape P = [length BSbasis, length BSbasis]
          \<and> length (entries P) = length BSbasis
          \<and> (\<forall>i<length BSbasis. length (entries P ! i) = length BSbasis))"
proof
  assume h: "BSbasis \<noteq> [] \<and> list_all valid BSbasis"
  then have ne: "BSbasis \<noteq> []" and v: "list_all valid BSbasis" by simp_all
  let ?ds = "map (\<lambda>p. \<lparr>idx = idx p, knots = knots p, coefs = map out_row (coefs p)\<rparr>) BSbasis"
  have ds: "collect (map differentiate BSbasis) = Inr ?ds" by (rule collect_differentiate[OF v])
  have dne: "?ds \<noteq> []" using ne by simp
  have A: "shape (get_basis_matrix data BSbasis) = [length data, length BSbasis]
   \<and> length (entries (get_basis_matrix data BSbasis)) = length data
   \<and> (\<forall>n<length data. length (entries (get_basis_matrix data BSbasis) ! n) = length BSbasis)"
    by (simp add: get_basis_matrix_nonempty[OF ne])
  have B: "\<exists>BSderiv D. collect (map differentiate BSbasis) = Inr BSderiv
          \<and> get_deriv_matrix data BSbasis = Inr D
          \<and> D = get_basis_matrix data BSderiv
          \<and> shape D = [length data, length BSbasis]
          \<and> length (entries D) = length data
          \<and> (\<forall>n<length data. length (entries D ! n) = length BSbasis)"
  proof -
    have gd: "get_deriv_matrix data BSbasis = Inr (get_basis_matrix data ?ds)"
      using ds by (simp only: get_deriv_matrix_def get_basis_matrix_def sum.case)
    have sh: "shape (get_basis_matrix data ?ds) = [length data, length BSbasis]
          \<and> length (entries (get_basis_matrix data ?ds)) = length data
          \<and> (\<forall>n<length data. length (entries (get_basis_matrix data ?ds) ! n) = length BSbasis)"
      unfolding get_basis_matrix_nonempty[OF dne] by simp
    from ds gd sh show ?thesis
      by (intro exI[of _ ?ds] exI[of _ "get_basis_matrix data ?ds"])
         (elim conjE, intro conjI refl, assumption+)
  qed
  have C: "\<exists>P. get_penalty_matrix BSbasis = Inr P
          \<and> shape P = [length BSbasis, length BSbasis]
          \<and> length (entries P) = length BSbasis
          \<and> (\<forall>i<length BSbasis. length (entries P ! i) = length BSbasis)"
    by (simp add: get_penalty_matrix_valid[OF v])
  from conjunct1[OF A] conjunct1[OF conjunct2[OF A]] conjunct2[OF conjunct2[OF A]] B C
  show "shape (get_basis_matrix data BSbasis) = [length data, length BSbasis]
   \<and> length (entries (get_basis_matrix data BSbasis)) = length data
   \<and> (\<forall>n<length data. length (entries (get_basis_matrix data BSbasis) ! n) = length BSbasis)
   \<and> (\<exists>BSderiv D. collect (map differentiate BSbasis) = Inr BSderiv
          \<and> get_deriv_matrix data BSbasis = Inr D
          \<and> D = get_basis_matrix data BSderiv
          \<and> shape D = [length data, length BSbasis]
          \<and> length (entries D) = length data
          \<and> (\<forall>n<length data. length (entries D ! n) = length BSbasis))
   \<and> (\<exists>P. get_penalty_matrix BSbasis = Inr P
          \<and> shape P = [length BSbasis, length BSbasis]
          \<and> length (entries P) = length BSbasis
          \<and> (\<forall>i<length BSbasis. length (entries P ! i) = length BSbasis))"
    by - (intro conjI; assumption)
qed

theorem C9_matrices_witness:
  "\<exists>basis. get_BSbasis demo_cT [0, 1, 2] = Inr basis
     \<and> shape (get_basis_matrix [1/2, 3/2] basis) = [2, 5]
     \<and> (\<exists>D. get_deriv_matrix [1/2, 3/2] basis = Inr D \<and> shape D = [2, 5])
     \<and> (\<exists>P. get_penalty_matrix basis = Inr P \<and> shape P = [5, 5])"
proof -
  obtain basis where b: "get_BSbasis demo_cT [0, 1, 2] = Inr basis" and l: "length basis = 5"
    by (rule demo_basis[of "[0, 1, 2]"]) simp_all
  have h: "basis \<noteq> [] \<and> list_all valid basis"
    using get_BSbasis_all_valid[OF b] by simp
  note c = mp[OF C9_matrices[of basis "[1/2, 3/2]"] h]
  have 1: "shape (get_basis_matrix [1/2, 3/2] basis) = [2, 5]"
    using c l by simp
  have 2: "\<exists>D. get_deriv_matrix [1/2, 3/2] basis = Inr D \<and> shape D = [2, 5]"
    using c l by auto
  have 3: "\<exists>P. get_penalty_matrix basis = Inr P \<and> shape P = [5, 5]"
    using c l by auto
  from b 1 2 3 show ?thesis by (intro exI[of _ basis] conjI)
qed

text \<open>
  The empty sequence is no basis, and numpy gives its value matrix the shape (0,).
\<close>

lemma empty_basis_shape: "shape (get_basis_matrix [1, 2] []) = [0]"
  by (simp add: get_basis_matrix_def np_array_def T_def)

subsection \<open>The argument of get\_BSbasis\<close>

text \<open>
  Claim C8, as stated: \<open>get_BSbasis\<close> fails with a validation error whenever its input
  is not a one-dimensional numeric sequence.  It fails on the code: an array of dimension
  0 is a numpy array, so the assertion on the type holds, and the next statement raises
  IndexError at \<open>data[0]\<close>.
\<close>

theorem C8_dimension_not_validated:
  "get_BSbasis_arg demo_cT (Ndarray0 5) = Inl IndexError
   \<and> get_BSbasis_arg demo_cT (Ndarray0 5) \<noteq> Inl AssertionError"
  by (simp add: get_BSbasis_arg_def is_ndarray_def)

text \<open>
  Claim C8, amended: \<open>get_BSbasis\<close> fails with a validation error, the assertion on the
  type, whenever its input is not a numpy array.
\<close>

theorem C8_type_validated:
  "\<not> is_ndarray a \<longrightarrow> get_BSbasis_arg cT a = Inl AssertionError"
  by (simp add: get_BSbasis_arg_def)

theorem C8_type_validated_witness:
  "\<not> is_ndarray (PyList [0, 1, 2])
   \<and> get_BSbasis_arg demo_cT (PyList [0, 1, 2]) = Inl AssertionError"
  using C8_type_validated[of "PyList [0, 1, 2]" demo_cT] by (simp add: is_ndarray_def)

subsection \<open>Repeated knots\<close>

lemma seg_zero: "seg r s 0 = 0"
  by (simp add: seg_def)

lemma sum_list_all_zero:
  fixes f :: "'a \<Rightarrow> real"
  shows "(\<And>x. x \<in> set xs \<Longrightarrow> f x = 0) \<Longrightarrow> sum_list (map f xs) = 0"
  by (induction xs) simp_all

lemma equal_knots:
  assumes "valid f" "knots f ! 0 = knots f ! 4" "n \<le> 4"
  shows "knots f ! n = knots f ! 0"
proof -
  from assms(1) obtain k0 k1 k2 k3 k4 where k: "knots f = [k0, k1, k2, k3, k4]"
    and le: "k0 \<le> k1" "k1 \<le> k2" "k2 \<le> k3" "k3 \<le> k4" by (rule valid_knots)
  from assms(2) k have "k0 = k4" by simp
  with le have "k1 = k0" "k2 = k0" "k3 = k0" "k4 = k0" by simp_all
  with k have r: "knots f = replicate 5 k0" by (simp add: numeral_eq_Suc)
  show ?thesis unfolding r using assms(3) by simp
qed

lemma overlap_equal_knots:
  assumes "valid f" "knots f ! 0 = knots f ! 4"
  shows "overlap f g = 0"
proof -
  have z: "knots f ! n - knots f ! m = 0" if "n \<le> 4" "m \<le> 4" for n m
    using equal_knots[OF assms that(1)] equal_knots[OF assms that(2)] by simp
  have a: "sum_list (map (\<lambda>k. seg (coefs f ! (d + k)) (coefs g ! k)
                               (knots f ! (d + k + 1) - knots f ! (d + k))) [0..<4 - d]) = 0" for d
  proof (rule sum_list_all_zero)
    fix x assume "x \<in> set [0..<4 - d]"
    then have "d + x + 1 \<le> 4" "d + x \<le> 4" by simp_all
    from z[OF this] show "seg (coefs f ! (d + x)) (coefs g ! x)
        (knots f ! (d + x + 1) - knots f ! (d + x)) = 0"
      by (simp only: seg_zero)
  qed
  have b: "sum_list (map (\<lambda>k. seg (coefs f ! k) (coefs g ! (e + k))
                               (knots f ! (k + 1) - knots f ! k)) [0..<4 - e]) = 0" for e
  proof (rule sum_list_all_zero)
    fix x assume "x \<in> set [0..<4 - e]"
    then have "x + 1 \<le> 4" "x \<le> 4" by simp_all
    from z[OF this] show "seg (coefs f ! x) (coefs g ! (e + x))
        (knots f ! (x + 1) - knots f ! x) = 0"
      by (simp only: seg_zero)
  qed
  show ?thesis unfolding overlap_def Let_def a b by simp
qed

lemma padded_000111:
  "data_padded [0, 0, 0, 1, 1, 1] = [0, 0, 0, 0, 0, 0, 1, 1, 1, 1, 1, 1]"
  by (simp add: data_padded_def numeral_3_eq_3)

text \<open>
  Claim C6.  Repeated knots are tolerated by the module's own code.  For the input
  0, 0, 0, 1, 1, 1, whenever scipy answers the eight windows with tables of the right
  shape, \<open>get_BSbasis\<close> returns eight valid objects, the first on the knots
  0, 0, 0, 0, 0 and the last on 1, 1, 1, 1, 1; each of them evaluates to one number per
  point, can be differentiated, and has a penalty entry with each other.  In general the
  constructor accepts five equal knots, \<open>%\<close> returns on every pair of valid objects the
  sum of the integrals over the common intervals, an interval of length 0 contributes 0,
  and an object whose knots are all equal has the penalty entry 0 with every object.  No
  step of the module divides by a difference of knots.  The numbers are reals: whether
  scipy's float tables are finite is outside this statement.
\<close>

theorem C6_repeated_knots:
  "((\<forall>i<8. \<exists>c. cT (window (data_padded [0, 0, 0, 1, 1, 1]) i) = Inr c
              \<and> shape_4x4 (take 4 (drop 3 c)))
      \<longrightarrow> (\<exists>basis. get_BSbasis cT [0, 0, 0, 1, 1, 1] = Inr basis \<and> length basis = 8
             \<and> knots (basis ! 0) = [0, 0, 0, 0, 0] \<and> knots (basis ! 7) = [1, 1, 1, 1, 1]
             \<and> (\<forall>i<8. valid (basis ! i)
                   \<and> (\<forall>vec. length (PP_Cubic_call (basis ! i) vec) = length vec)
                   \<and> (\<exists>d. differentiate (basis ! i) = Inr d)
                   \<and> (\<forall>j<8. \<exists>v. PP_Cubic_mod (basis ! i) (basis ! j) = Inr v))))
   \<and> (length cs = 4 \<and> (\<forall>r\<in>set cs. length r = 4)
        \<longrightarrow> PP_Cubic_init n [k, k, k, k, k] cs = Inr \<lparr>idx = n, knots = [k, k, k, k, k], coefs = cs\<rparr>)
   \<and> (valid f \<and> valid g \<longrightarrow> PP_Cubic_mod f g = Inr (overlap f g))
   \<and> seg r s 0 = 0
   \<and> (valid f \<and> valid g \<and> knots f ! 0 = knots f ! 4 \<longrightarrow> PP_Cubic_mod f g = Inr 0)"
proof -
  let ?d = "[0, 0, 0, 1, 1, 1 :: real]"
  have A: "\<exists>basis. get_BSbasis cT ?d = Inr basis \<and> length basis = 8
             \<and> knots (basis ! 0) = [0, 0, 0, 0, 0] \<and> knots (basis ! 7) = [1, 1, 1, 1, 1]
             \<and> (\<forall>i<8. valid (basis ! i)
                   \<and> (\<forall>vec. length (PP_Cubic_call (basis ! i) vec) = length vec)
                   \<and> (\<exists>d. differentiate (basis ! i) = Inr d)
                   \<and> (\<forall>j<8. \<exists>v. PP_Cubic_mod (basis ! i) (basis ! j) = Inr v))"
    if h: "\<forall>i<8. \<exists>c. cT (window (data_padded ?d) i) = Inr c \<and> shape_4x4 (take 4 (drop 3 c))"
  proof -
    have "\<forall>i<length ?d + 2. \<exists>c. cT (window (data_padded ?d) i) = Inr c
              \<and> shape_4x4 (take 4 (drop 3 c))"
      using h by simp
    from get_BSbasis_returns[OF _ _ this]
    obtain basis where b: "get_BSbasis cT ?d = Inr basis" by auto
    have l: "length basis = 8" using get_BSbasis_Inr(2)[OF b] by simp
    have each: "valid (basis ! i) \<and> knots (basis ! i) = window (data_padded ?d) i"
      if "i < 8" for i
      using get_BSbasis_Inr(3)[OF b, of i] that l by simp
    have k0: "knots (basis ! 0) = [0, 0, 0, 0, 0]"
      using each[of 0] by (simp add: padded_000111 window_def)
    have k7: "knots (basis ! 7) = [1, 1, 1, 1, 1]"
      using each[of 7] by (simp add: padded_000111 window_def)
    have v: "valid (basis ! i)" if "i < 8" for i using each[OF that] by simp
    have m: "\<exists>v. PP_Cubic_mod (basis ! i) (basis ! j) = Inr v" if "i < 8" "j < 8" for i j
      using mod_closed_form[OF v[OF that(1)] v[OF that(2)]] by simp
    have d: "\<exists>d. differentiate (basis ! i) = Inr d" if "i < 8" for i
      using differentiate_valid[OF v[OF that]] by simp
    have c: "length (PP_Cubic_call (basis ! i) vec) = length vec" for i vec
      by (simp add: PP_Cubic_call_def)
    from b l k0 k7 v m d c show ?thesis by (intro exI[of _ basis]) simp
  qed
  have B: "PP_Cubic_init n [k, k, k, k, k] cs = Inr \<lparr>idx = n, knots = [k, k, k, k, k], coefs = cs\<rparr>"
    if "length cs = 4 \<and> (\<forall>r\<in>set cs. length r = 4)"
    using that by (simp add: PP_Cubic_init_def shape_4x4_def list_all_iff descents_def)
  have C: "PP_Cubic_mod f g = Inr (overlap f g)" if "valid f \<and> valid g"
    using that by (simp add: mod_closed_form)
  have D: "PP_Cubic_mod f g = Inr 0" if "valid f \<and> valid g \<and> knots f ! 0 = knots f ! 4"
    using that by (simp add: mod_closed_form overlap_equal_knots)
  show ?thesis using A B C D seg_zero[of r s] by blast
qed

theorem C6_repeated_knots_witness:
  "(\<exists>basis. get_BSbasis demo_cT [0, 0, 0, 1, 1, 1] = Inr basis \<and> length basis = 8
       \<and> knots (basis ! 0) = [0, 0, 0, 0, 0] \<and> knots (basis ! 7) = [1, 1, 1, 1, 1]
       \<and> valid (basis ! 0)
       \<and> (\<exists>v. PP_Cubic_mod (basis ! 0) (basis ! 1) = Inr v))
   \<and> PP_Cubic_init 0 [1, 1, 1, 1, 1] unit_table
       = Inr \<lparr>idx = 0, knots = [1, 1, 1, 1, 1], coefs = unit_table\<rparr>
   \<and> PP_Cubic_mod \<lparr>idx = 1, knots = [0, 0, 0, 0, 0], coefs = unit_table\<rparr> unit_PP = Inr 0"
proof -
  let ?f = "\<lparr>idx = 1, knots = [0, 0, 0, 0, 0], coefs = unit_table\<rparr>"
  note c = C6_repeated_knots[where cT = demo_cT and cs = unit_table and n = 0 and k = 1
              and f = ?f and g = unit_PP]
  have h: "\<forall>i<8. \<exists>c. demo_cT (window (data_padded [0, 0, 0, 1, 1, 1]) i) = Inr c
              \<and> shape_4x4 (take 4 (drop 3 c))"
    using demo_cT_shape by blast
  from mp[OF conjunct1[OF c] h]
  obtain basis where b: "get_BSbasis demo_cT [0, 0, 0, 1, 1, 1] = Inr basis" "length basis = 8"
      "knots (basis ! 0) = [0, 0, 0, 0, 0]" "knots (basis ! 7) = [1, 1, 1, 1, 1]"
    and e: "\<forall>i<8. valid (basis ! i)
                   \<and> (\<forall>vec. length (PP_Cubic_call (basis ! i) vec) = length vec)
                   \<and> (\<exists>d. differentiate (basis ! i) = Inr d)
                   \<and> (\<forall>j<8. \<exists>v. PP_Cubic_mod (basis ! i) (basis ! j) = Inr v)"
    by blast
  have v0: "valid (basis ! 0)" using e[rule_format, of 0] by simp
  have m: "\<exists>v. PP_Cubic_mod (basis ! 0) (basis ! 1) = Inr v"
    using e[rule_format, of 0] by simp
  have 1: "\<exists>basis. get_BSbasis demo_cT [0, 0, 0, 1, 1, 1] = Inr basis \<and> length basis = 8
       \<and> knots (basis ! 0) = [0, 0, 0, 0, 0] \<and> knots (basis ! 7) = [1, 1, 1, 1, 1]
       \<and> valid (basis ! 0)
       \<and> (\<exists>v. PP_Cubic_mod (basis ! 0) (basis ! 1) = Inr v)"
    using b v0 m by (intro exI[of _ basis] conjI)
  have t: "length unit_table = 4 \<and> (\<forall>r\<in>set unit_table. length r = 4)"
    by (simp add: unit_table_def)
  have 2: "PP_Cubic_init 0 [1, 1, 1, 1, 1] unit_table
       = Inr \<lparr>idx = 0, knots = [1, 1, 1, 1, 1], coefs = unit_table\<rparr>"
    by (rule mp[OF conjunct1[OF conjunct2[OF c]] t])
  have vf: "valid ?f"
    by (simp add: valid_def unit_table_def shape_4x4_def descents_def)
  have h3: "valid ?f \<and> valid unit_PP \<and> knots ?f ! 0 = knots ?f ! 4"
    using vf valid_unit_PP by simp
  have 3: "PP_Cubic_mod ?f unit_PP = Inr 0"
    by (rule mp[OF conjunct2[OF conjunct2[OF conjunct2[OF conjunct2[OF c]]]] h3])
  from 1 2 3 show ?thesis by (intro conjI)
qed

subsection \<open>An example value\<close>

text \<open>
  The second derivative of the cubic B-spline on the knots 0, 1, 2, 3, 4 is \<open>t\<close>,
  \<open>1 - 3t\<close>, \<open>3t - 2\<close> and \<open>1 - t\<close> on its four intervals; the integral of its square
  is \<open>1/3 + 1 + 1 + 1/3\<close>.
\<close>

lemma mod_unit_PP: "PP_Cubic_mod unit_PP unit_PP = Inr (8/3)"
  unfolding mod_closed_form[OF valid_unit_PP valid_unit_PP]
  by (simp add: overlap_def seg_def upt4 unit_PP_def unit_table_def)

end
